theory Spec2Isabelle
  imports Main "HOL-Library.Word" "HOL-Library.Multiset"
begin

unbundle bit_operations_syntax

section \<open>Strings, numbers and errors of the host language\<close>

text \<open>
  A JavaScript string is modelled as a \<^typ>\<open>string\<close>; the engine only compares paths for
  equality and looks at the separators \<open>/\<close>, \<open>\\<close> and the dot, so one \<^typ>\<open>char\<close> stands
  for one code unit.  A thrown \<open>Error\<close> is a value carrying its message, and a function that
  may throw returns \<open>error + 'a\<close>.
\<close>

datatype error = Error string

type_synonym byte = "8 word"

definition slash :: char where
  "slash = CHR 0x2F"

definition backslash :: char where
  "backslash = CHR 0x5C"

definition quote :: char where
  "quote = CHR 0x27"

definition dquote :: char where
  "dquote = CHR 0x22"

text \<open>\<open>Number.prototype.toString(radix)\<close> on a non-negative integer, radix 10 and 16.\<close>

definition digit_char :: "nat \<Rightarrow> char" where
  "digit_char d = ''0123456789abcdef'' ! d"

fun toString_radix :: "nat \<Rightarrow> nat \<Rightarrow> string" where
  "toString_radix r n =
     (if r < 2 \<or> n < r then [digit_char n]
      else toString_radix r (n div r) @ [digit_char (n mod r)])"

declare toString_radix.simps [simp del]

definition toString10 :: "nat \<Rightarrow> string" where
  "toString10 n = toString_radix 10 n"

definition toString16 :: "nat \<Rightarrow> string" where
  "toString16 n = toString_radix 16 n"

text \<open>\<open>s.padStart(n, c)\<close> with a one-character pad string.\<close>

definition padStart :: "nat \<Rightarrow> char \<Rightarrow> string \<Rightarrow> string" where
  "padStart n c s = replicate (n - length s) c @ s"

text \<open>\<open>s.startsWith(p)\<close>.\<close>

definition startsWith :: "string \<Rightarrow> string \<Rightarrow> bool" where
  "startsWith s p = (take (length p) s = p)"

text \<open>\<open>s.trim()\<close>: white space and line terminators are removed at both ends.\<close>

definition is_space :: "char \<Rightarrow> bool" where
  "is_space c = (c \<in> {CHR 0x20, CHR 0x09, CHR 0x0A, CHR 0x0B, CHR 0x0C, CHR 0x0D, CHR 0xA0})"

definition trim :: "string \<Rightarrow> string" where
  "trim s = rev (dropWhile is_space (rev (dropWhile is_space s)))"

section \<open>Path normalizer: \<open>sanitizeGitPath\<close>\<close>

fun collapse_slashes :: "string \<Rightarrow> string" where
  "collapse_slashes (c # d # cs) =
     (if c = slash \<and> d = slash then collapse_slashes (d # cs)
      else c # collapse_slashes (d # cs))"
| "collapse_slashes cs = cs"

fun split_on :: "char \<Rightarrow> string \<Rightarrow> string list" where
  "split_on d [] = [[]]"
| "split_on d (c # cs) =
     (if c = d then [] # split_on d cs
      else (case split_on d cs of
              [] \<Rightarrow> [[c]]
            | p # ps \<Rightarrow> (c # p) # ps))"

fun join :: "char \<Rightarrow> string list \<Rightarrow> string" where
  "join d [] = []"
| "join d [p] = p"
| "join d (p # q # ps) = p @ d # join d (q # ps)"

definition sanitizeGitPath :: "string \<Rightarrow> string" where
  "sanitizeGitPath path =
     (let s1 = map (\<lambda>c. if c = backslash then slash else c) path;
          s2 = collapse_slashes s1;
          s3 = dropWhile (\<lambda>c. c = slash) s2;
          s4 = rev (dropWhile (\<lambda>c. c = slash) (rev s3));
          parts = filter (\<lambda>part. part \<noteq> [] \<and> part \<noteq> ''.'' \<and> part \<noteq> ''..'') (split_on slash s4)
      in join slash parts)"

section \<open>Content hasher: \<open>computeGitBlobSha\<close>\<close>

subsection \<open>The platform digest\<close>

text \<open>
  \<open>crypto.subtle.digest('SHA-1', bytes)\<close> is the platform's SHA-1 (FIPS 180-4).  It is written
  out here on 32-bit values kept as naturals below \<open>2 ^ 32\<close>, in the form that keeps a window
  of sixteen schedule words: at step \<open>t\<close> the window holds \<open>W\<^sub>t \<dots> W\<^sub>t\<^sub>+\<^sub>1\<^sub>5\<close>.
\<close>

definition add32 :: "nat \<Rightarrow> nat \<Rightarrow> nat" where
  "add32 x y = (x + y) mod 2 ^ 32"

definition not32 :: "nat \<Rightarrow> nat" where
  "not32 x = 2 ^ 32 - 1 - x mod 2 ^ 32"

definition rotl32 :: "nat \<Rightarrow> nat \<Rightarrow> nat" where
  "rotl32 n w = (w * 2 ^ n) mod 2 ^ 32 + w div 2 ^ (32 - n)"

definition be_word :: "nat list \<Rightarrow> nat" where
  "be_word bs = foldl (\<lambda>acc b. acc * 256 + b) 0 bs"

fun be_bytes :: "nat \<Rightarrow> nat \<Rightarrow> nat list" where
  "be_bytes 0 n = []"
| "be_bytes (Suc k) n = be_bytes k (n div 256) @ [n mod 256]"

definition sha1_pad :: "nat list \<Rightarrow> nat list" where
  "sha1_pad m =
     m @ [128] @ replicate ((64 - (length m + 9) mod 64) mod 64) 0
       @ be_bytes 8 (8 * length m mod 2 ^ 64)"

fun chunks_of :: "nat \<Rightarrow> nat \<Rightarrow> 'a list \<Rightarrow> 'a list list" where
  "chunks_of 0 n xs = []"
| "chunks_of (Suc k) n xs = take n xs # chunks_of k n (drop n xs)"

definition sha1_words :: "nat list \<Rightarrow> nat list" where
  "sha1_words blk = map be_word (chunks_of 16 4 blk)"

definition sha1_f :: "nat \<Rightarrow> nat \<Rightarrow> nat \<Rightarrow> nat \<Rightarrow> nat" where
  "sha1_f t b c d =
     (if t < 20 then (b AND c) OR (not32 b AND d)
      else if t < 40 then b XOR c XOR d
      else if t < 60 then (b AND c) OR (b AND d) OR (c AND d)
      else b XOR c XOR d)"

definition sha1_k :: "nat \<Rightarrow> nat" where
  "sha1_k t =
     (if t < 20 then 0x5A827999 else if t < 40 then 0x6ED9EBA1
      else if t < 60 then 0x8F1BBCDC else 0xCA62C1D6)"

type_synonym sha1_state = "nat \<times> nat \<times> nat \<times> nat \<times> nat"

fun sha1_round :: "sha1_state \<Rightarrow> nat \<times> nat \<Rightarrow> sha1_state" where
  "sha1_round (a, b, c, d, e) (t, w) =
     (add32 (add32 (add32 (add32 (rotl32 5 a) (sha1_f t b c d)) e) (sha1_k t)) w,
      a, rotl32 30 b, c, d)"

fun sha1_loop :: "nat \<Rightarrow> nat \<Rightarrow> nat list \<Rightarrow> sha1_state \<Rightarrow> sha1_state" where
  "sha1_loop 0 t win s = s"
| "sha1_loop (Suc k) t win s =
     sha1_loop k (t + 1)
       (tl win @ [rotl32 1 (win ! 13 XOR win ! 8 XOR win ! 2 XOR win ! 0)])
       (sha1_round s (t, win ! 0))"

fun sha1_block :: "sha1_state \<Rightarrow> nat list \<Rightarrow> sha1_state" where
  "sha1_block (h0, h1, h2, h3, h4) blk =
     (case sha1_loop 80 0 (sha1_words blk) (h0, h1, h2, h3, h4) of
        (a, b, c, d, e) \<Rightarrow> (add32 h0 a, add32 h1 b, add32 h2 c, add32 h3 d, add32 h4 e))"

definition sha1_init :: sha1_state where
  "sha1_init = (0x67452301, 0xEFCDAB89, 0x98BADCFE, 0x10325476, 0xC3D2E1F0)"

definition sha1 :: "byte list \<Rightarrow> byte list" where
  "sha1 m =
     (let p = sha1_pad (map unat m) in
      case foldl sha1_block sha1_init (chunks_of (length p div 64) 64 p) of
        (a, b, c, d, e) \<Rightarrow> map of_nat (concat (map (be_bytes 4) [a, b, c, d, e])))"

subsection \<open>Files and typed arrays\<close>

text \<open>
  A \<open>File\<close> is read twice by the engine, once by \<open>file.arrayBuffer()\<close> for hashing and once
  by \<open>readFileAsBase64\<close> for the upload; either read may reject.  The record holds the
  outcome of each.
\<close>

record File =
  arrayBuffer :: "error + byte list"
  readFileAsBase64 :: "error + string"

text \<open>\<open>new TextEncoder().encode(s)\<close> on a string of ASCII characters.\<close>

definition text_encode :: "string \<Rightarrow> byte list" where
  "text_encode s = map (\<lambda>c. of_nat (of_char c)) s"

text \<open>
  \<open>dst.set(src, offset)\<close> on a \<open>Uint8Array\<close>: a \<open>RangeError\<close> when the source does not fit.
\<close>

definition array_set :: "byte list \<Rightarrow> byte list \<Rightarrow> nat \<Rightarrow> error + byte list" where
  "array_set dst src off =
     (if off + length src > length dst then Inl (Error ''RangeError: offset is out of bounds'')
      else Inr (take off dst @ src @ drop (off + length src) dst))"

definition byte_hex :: "byte \<Rightarrow> string" where
  "byte_hex b = padStart 2 (CHR ''0'') (toString16 (unat b))"

definition computeGitBlobSha :: "File \<Rightarrow> error + string" where
  "computeGitBlobSha file =
     (case arrayBuffer file of
        Inl e \<Rightarrow> Inl e
      | Inr buffer \<Rightarrow>
          let size = length buffer;
              header = ''blob '' @ toString10 size @ [CHR 0x00];
              headerBuffer = text_encode header;
              combined0 = replicate (length headerBuffer + size) (0 :: byte)
          in case array_set combined0 headerBuffer 0 of
               Inl e \<Rightarrow> Inl e
             | Inr combined1 \<Rightarrow>
                 (case array_set combined1 buffer (length headerBuffer) of
                    Inl e \<Rightarrow> Inl e
                  | Inr combined \<Rightarrow> Inr (concat (map byte_hex (sha1 combined)))))"

text \<open>
  The identity of a Git blob in the words of the specification: SHA-1 over the ASCII string
  \<open>blob\<close> and a space, the decimal byte length, one NUL byte and the content, rendered as
  lowercase hexadecimal, two digits for each byte.
\<close>

definition hex_lower :: "byte list \<Rightarrow> string" where
  "hex_lower bs = concat (map (\<lambda>b. [digit_char (unat b div 16), digit_char (unat b mod 16)]) bs)"

definition git_blob_id :: "byte list \<Rightarrow> string" where
  "git_blob_id b =
     hex_lower (sha1 (text_encode ''blob '' @ text_encode (toString10 (length b)) @ [0] @ b))"

section \<open>Data model of the engine\<close>

text \<open>
  The records of \<open>types.ts\<close>.  The optional \<open>size\<close> and \<open>url\<close> of a tree item and the
  \<open>status\<close> of a file to sync are never read by the engine and are left out.
\<close>

record GitTreeItem =
  t_path :: string
  t_mode :: string
  t_type :: string
  t_sha :: string

record FileToSync =
  f_path :: string
  f_file :: File

record SyncConfig =
  token :: string
  repoUrl :: string
  branch :: string
  targetPath :: string
  deleteMissing :: bool
  autoCommitMessage :: bool

record RepoDetails =
  owner :: string
  repo :: string

datatype SyncState = IDLE | SCANNING | ANALYZING | UPLOADING | COMMITTING | SUCCESS | ERROR

datatype LogType = LogInfo | LogSuccess | LogWarning | LogError

text \<open>A value that is a string, \<open>null\<close> or \<open>undefined\<close> is truthy when it is a non-empty string.\<close>

fun truthy :: "string option \<Rightarrow> bool" where
  "truthy None = False"
| "truthy (Some s) = (s \<noteq> [])"

section \<open>Remote repository client: \<open>GitHubService\<close>\<close>

text \<open>
  The remote is outside the program.  What it answers to each request is a parameter of the
  model: \<open>Ok\<close> with the decoded body, \<open>NotOk\<close> with the HTTP status and the \<open>message\<close> field
  of the error body when there is one, or \<open>Rejected\<close> when \<open>fetch\<close> itself fails.  The answer to
  a blob creation may depend on which upload it is (its index in the upload list) besides
  the content.  Every call goes to the one repository named by \<open>RepoDetails\<close>, which is
  therefore left out of the calls.  The uploads of a chunk run concurrently, so the order in
  which they settle is not the program's either: \<open>settles_at env k\<close> is the time at which
  upload \<open>k\<close> settles, that is, at which its file read fails or its blob request is answered.
\<close>

datatype 'a response = Ok 'a | NotOk nat "string option" | Rejected string

record Remote =
  ref_response :: "string \<Rightarrow> string response"
  tree_response :: "string \<Rightarrow> (GitTreeItem list \<times> bool) response"
  blob_response :: "nat \<Rightarrow> string \<Rightarrow> string response"
  newTree_response :: "GitTreeItem list \<Rightarrow> string response"
  commit_response :: "string \<Rightarrow> string \<Rightarrow> string list \<Rightarrow> string response"
  updateRef_response :: "string \<Rightarrow> string \<Rightarrow> unit response"
  createRef_response :: "string \<Rightarrow> string \<Rightarrow> unit response"
  settles_at :: "nat \<Rightarrow> nat"
  API_KEY :: string
  generateContent :: "string list \<Rightarrow> string list \<Rightarrow> string list \<Rightarrow> error + string"

definition request :: "'a response \<Rightarrow> error + 'a" where
  "request r =
     (case r of
        Ok x \<Rightarrow> Inr x
      | NotOk status msg \<Rightarrow>
          Inl (Error (if truthy msg then the msg else ''GitHub API Error: '' @ toString10 status))
      | Rejected m \<Rightarrow> Inl (Error m))"

definition getRef :: "Remote \<Rightarrow> string \<Rightarrow> error + string" where
  "getRef env b =
     (case request (ref_response env b) of
        Inl e \<Rightarrow> Inl (Error (''Branch '' @ [quote] @ b @ [quote] @ '' not found.''))
      | Inr sha \<Rightarrow> Inr sha)"

definition getTreeRecursive :: "Remote \<Rightarrow> string \<Rightarrow> error + GitTreeItem list \<times> bool" where
  "getTreeRecursive env treeSha = request (tree_response env treeSha)"

definition createBlob :: "Remote \<Rightarrow> nat \<Rightarrow> string \<Rightarrow> error + string" where
  "createBlob env k contentBase64 = request (blob_response env k contentBase64)"

definition createTree :: "Remote \<Rightarrow> GitTreeItem list \<Rightarrow> error + string" where
  "createTree env tree = request (newTree_response env tree)"

definition commit_parents :: "string option \<Rightarrow> string list" where
  "commit_parents parentSha = (if truthy parentSha then [the parentSha] else [])"

definition createCommit :: "Remote \<Rightarrow> string \<Rightarrow> string \<Rightarrow> string option \<Rightarrow> error + string" where
  "createCommit env message treeSha parentSha =
     request (commit_response env message treeSha (commit_parents parentSha))"

definition updateRef :: "Remote \<Rightarrow> string \<Rightarrow> string \<Rightarrow> error + unit" where
  "updateRef env b commitSha = request (updateRef_response env b commitSha)"

definition createRef :: "Remote \<Rightarrow> string \<Rightarrow> string \<Rightarrow> error + unit" where
  "createRef env b sha = request (createRef_response env b sha)"

section \<open>Commit message collaborator: \<open>generateCommitMessage\<close>\<close>

definition generateCommitMessage :: "Remote \<Rightarrow> string list \<Rightarrow> string list \<Rightarrow> string list \<Rightarrow> string" where
  "generateCommitMessage env filesAdded filesModified filesDeleted =
     (if API_KEY env = [] then ''chore: sync files via GitSync Mobile''
      else (case generateContent env filesAdded filesModified filesDeleted of
              Inr text \<Rightarrow> trim text
            | Inl e \<Rightarrow> ''chore: batch update via GitSync Mobile''))"

section \<open>Reconciliation engine: \<open>startSync\<close>\<close>

text \<open>
  The state the run acts on: the displayed \<open>syncState\<close>, every state set so far, the log, and
  the requests made to the remote.  \<open>CreateBlob k c\<close> is the blob request of upload \<open>k\<close> with
  content \<open>c\<close>.  A request is listed when it is answered; for the blob requests of one chunk,
  which are in flight together, that is the order in which their uploads settle.  Progress
  and statistics counters only feed the display and are left out.
\<close>

datatype api_call =
    GetRef string
  | GetTreeRecursive string
  | CreateBlob nat string
  | CreateTree "GitTreeItem list"
  | CreateCommit string string "string list"
  | UpdateRef string string
  | CreateRef string string

record App =
  syncState :: SyncState
  stages :: "SyncState list"
  logs :: "(string \<times> LogType) list"
  calls :: "api_call list"

definition addLog :: "string \<Rightarrow> LogType \<Rightarrow> App \<Rightarrow> App" where
  "addLog message ty app = app\<lparr>logs := logs app @ [(message, ty)]\<rparr>"

definition setSyncState :: "SyncState \<Rightarrow> App \<Rightarrow> App" where
  "setSyncState s app = app\<lparr>syncState := s, stages := stages app @ [s]\<rparr>"

definition call :: "api_call \<Rightarrow> App \<Rightarrow> App" where
  "call c app = app\<lparr>calls := calls app @ [c]\<rparr>"

subsection \<open>Scanning\<close>

definition defaultBranch :: "SyncConfig \<Rightarrow> string" where
  "defaultBranch config = (if trim (branch config) \<noteq> [] then trim (branch config) else ''main'')"

text \<open>
  The inner \<open>try\<close>: any failure of the ref lookup or of the tree listing is caught, and the
  run goes on with what has been assigned so far.
\<close>

definition scan :: "Remote \<Rightarrow> string \<Rightarrow> App \<Rightarrow> (string option \<times> GitTreeItem list \<times> bool) \<times> App" where
  "scan env b app =
     (let fresh = ''Branch '' @ [quote] @ b @ [quote] @ '' not found (or repo empty). Initializing fresh upload.'';
          app1 = call (GetRef b) app
      in case getRef env b of
           Inl e \<Rightarrow> ((None, [], False), addLog fresh LogInfo app1)
         | Inr latestCommitSha \<Rightarrow>
             (let app2 = call (GetTreeRecursive latestCommitSha) app1
              in case getTreeRecursive env latestCommitSha of
                   Inl e \<Rightarrow> ((Some latestCommitSha, [], False), addLog fresh LogInfo app2)
                 | Inr (tree, truncated) \<Rightarrow> ((Some latestCommitSha, tree, truncated), app2)))"

subsection \<open>Analyzing\<close>

definition targetPrefix_of :: "SyncConfig \<Rightarrow> string" where
  "targetPrefix_of config =
     (if targetPath config \<noteq> [] then sanitizeGitPath (targetPath config) @ [slash] else [])"

definition remoteFileMap_of :: "GitTreeItem list \<Rightarrow> (string \<rightharpoonup> string)" where
  "remoteFileMap_of tree =
     foldl (\<lambda>m item. if t_type item = ''blob'' then m(t_path item \<mapsto> t_sha item) else m) Map.empty tree"

record UploadItem =
  u_file :: FileToSync
  remotePath :: string
  isNew :: bool

record Analysis =
  filesToUpload :: "UploadItem list"
  filesSkipped :: "string list"
  processedRemotePaths :: "string set"

definition no_analysis :: Analysis where
  "no_analysis = \<lparr>filesToUpload = [], filesSkipped = [], processedRemotePaths = {}\<rparr>"

definition to_upload :: "FileToSync \<Rightarrow> string \<Rightarrow> bool \<Rightarrow> Analysis \<Rightarrow> Analysis" where
  "to_upload f p new a =
     a\<lparr>filesToUpload := filesToUpload a @ [\<lparr>u_file = f, remotePath = p, isNew = new\<rparr>]\<rparr>"

text \<open>
  The body of the loop over the local files, and the loop.  A file whose hash cannot be
  computed is uploaded.
\<close>

definition analyze_file :: "(string \<rightharpoonup> string) \<Rightarrow> string \<Rightarrow> FileToSync \<Rightarrow> Analysis \<Rightarrow> Analysis" where
  "analyze_file remoteFileMap targetPrefix f a =
     (let p = sanitizeGitPath (targetPrefix @ f_path f);
          remoteSha = remoteFileMap p
      in if truthy remoteSha then
           (let a1 = a\<lparr>processedRemotePaths := insert p (processedRemotePaths a)\<rparr>
            in case computeGitBlobSha (f_file f) of
                 Inr localSha \<Rightarrow>
                   if Some localSha = remoteSha
                   then a1\<lparr>filesSkipped := filesSkipped a1 @ [p]\<rparr>
                   else to_upload f p False a1
               | Inl e \<Rightarrow> to_upload f p False a1)
         else to_upload f p True a)"

fun analyze :: "(string \<rightharpoonup> string) \<Rightarrow> string \<Rightarrow> FileToSync list \<Rightarrow> Analysis \<Rightarrow> Analysis" where
  "analyze remoteFileMap targetPrefix [] a = a"
| "analyze remoteFileMap targetPrefix (f # fs) a =
     analyze remoteFileMap targetPrefix fs (analyze_file remoteFileMap targetPrefix f a)"

text \<open>The pass over the remote tree that collects \<open>filesToDelete\<close>.\<close>

fun delete_pass :: "string \<Rightarrow> string set \<Rightarrow> GitTreeItem list \<Rightarrow> string list \<Rightarrow> string list" where
  "delete_pass targetPrefix processed [] acc = acc"
| "delete_pass targetPrefix processed (item # tree) acc =
     (if t_type item = ''blob'' then
        (if targetPrefix \<noteq> [] \<and> \<not> startsWith (t_path item) targetPrefix
         then delete_pass targetPrefix processed tree acc
         else if t_path item \<notin> processed
         then delete_pass targetPrefix processed tree (acc @ [t_path item])
         else delete_pass targetPrefix processed tree acc)
      else delete_pass targetPrefix processed tree acc)"

definition filesToDelete_of :: "SyncConfig \<Rightarrow> bool \<Rightarrow> string \<Rightarrow> string set \<Rightarrow> GitTreeItem list \<Rightarrow> string list" where
  "filesToDelete_of config truncated targetPrefix processed tree =
     (if deleteMissing config \<and> \<not> truncated then delete_pass targetPrefix processed tree [] else [])"

text \<open>The whole Analyzing pass on a tree snapshot: the analysis and \<open>filesToDelete\<close>.\<close>

definition plan :: "SyncConfig \<Rightarrow> GitTreeItem list \<Rightarrow> bool \<Rightarrow> FileToSync list \<Rightarrow> Analysis \<times> string list" where
  "plan config tree truncated files =
     (let targetPrefix = targetPrefix_of config;
          a = analyze (remoteFileMap_of tree) targetPrefix files no_analysis
      in (a, filesToDelete_of config truncated targetPrefix (processedRemotePaths a) tree))"

text \<open>The three classes of local paths, as the run itself lists them.\<close>

definition addedPaths :: "Analysis \<Rightarrow> string list" where
  "addedPaths a = map remotePath (filter (\<lambda>f. isNew f) (filesToUpload a))"

definition modifiedPaths :: "Analysis \<Rightarrow> string list" where
  "modifiedPaths a = map remotePath (filter (\<lambda>f. \<not> isNew f) (filesToUpload a))"

subsection \<open>Uploading\<close>

record Uploads =
  newTree :: "GitTreeItem list"
  uploadedPaths :: "string list"

definition no_uploads :: Uploads where
  "no_uploads = \<lparr>newTree = [], uploadedPaths = []\<rparr>"

definition CHUNK_SIZE :: nat where
  "CHUNK_SIZE = 5"

text \<open>
  One upload, the body given to \<open>chunk.map\<close>; \<open>k\<close> is the index of the item in
  \<open>filesToUpload\<close>.  The result says whether the promise rejected.
\<close>

definition upload_one :: "Remote \<Rightarrow> nat \<Rightarrow> UploadItem \<Rightarrow> Uploads \<times> App \<Rightarrow> (Uploads \<times> App) \<times> error option" where
  "upload_one env k item st =
     (let up = fst st; app = snd st;
          failed = addLog (''Failed upload: '' @ remotePath item) LogError
      in case readFileAsBase64 (f_file (u_file item)) of
           Inl e \<Rightarrow> ((up, failed app), Some e)
         | Inr base64 \<Rightarrow>
             (let app1 = call (CreateBlob k base64) app
              in case createBlob env k base64 of
                   Inl e \<Rightarrow> ((up, failed app1), Some e)
                 | Inr blobSha \<Rightarrow>
                     ((up\<lparr>newTree := newTree up @
                            [\<lparr>t_path = remotePath item, t_mode = ''100644'',
                              t_type = ''blob'', t_sha = blobSha\<rparr>],
                          uploadedPaths := uploadedPaths up @ [remotePath item]\<rparr>,
                       if \<not> isNew item
                       then addLog (''Updating: '' @ remotePath item) LogWarning app1
                       else app1),
                      None)))"

text \<open>
  \<open>Promise.all\<close> over one chunk.  All uploads of the chunk are started and run concurrently.
  Each changes the state of the run at one moment only, when it settles: it logs its failure
  and rejects, or it pushes its tree entry.  So the chunk acts as its uploads taken in the
  order in which they settle (uploads settling at the same time, in list order).
  \<open>Promise.all\<close> rejects with the first rejection; the uploads that have not settled by
  then are not stopped, and are returned with the error.
\<close>

fun indexed :: "nat \<Rightarrow> 'a list \<Rightarrow> (nat \<times> 'a) list" where
  "indexed k [] = []"
| "indexed k (x # xs) = (k, x) # indexed (Suc k) xs"

definition settle_order :: "Remote \<Rightarrow> nat \<Rightarrow> UploadItem list \<Rightarrow> (nat \<times> UploadItem) list" where
  "settle_order env i chunk = sort_key (\<lambda>p. settles_at env (fst p)) (indexed i chunk)"

type_synonym rejection = "error \<times> (nat \<times> UploadItem) list"

fun run_uploads :: "Remote \<Rightarrow> (nat \<times> UploadItem) list \<Rightarrow> Uploads \<times> App \<Rightarrow> (Uploads \<times> App) \<times> rejection option" where
  "run_uploads env [] st = (st, None)"
| "run_uploads env (p # ps) st =
     (case snd (upload_one env (fst p) (snd p) st) of
        None \<Rightarrow> run_uploads env ps (fst (upload_one env (fst p) (snd p) st))
      | Some e \<Rightarrow> (fst (upload_one env (fst p) (snd p) st), Some (e, ps)))"

definition upload_chunk :: "Remote \<Rightarrow> nat \<Rightarrow> UploadItem list \<Rightarrow> Uploads \<times> App \<Rightarrow> (Uploads \<times> App) \<times> rejection option" where
  "upload_chunk env i chunk st = run_uploads env (settle_order env i chunk) st"

text \<open>
  The uploads still in flight when the run was aborted settle afterwards.  They still log
  and are still answered; the tree entries they push are never read.
\<close>

fun late_uploads :: "Remote \<Rightarrow> (nat \<times> UploadItem) list \<Rightarrow> Uploads \<times> App \<Rightarrow> Uploads \<times> App" where
  "late_uploads env [] st = st"
| "late_uploads env (p # ps) st = late_uploads env ps (fst (upload_one env (fst p) (snd p) st))"

text \<open>The loop \<open>for (let i = 0; i < filesToUpload.length; i += CHUNK_SIZE)\<close>.\<close>

function upload_loop :: "Remote \<Rightarrow> UploadItem list \<Rightarrow> nat \<Rightarrow> Uploads \<times> App \<Rightarrow> (Uploads \<times> App) \<times> rejection option" where
  "upload_loop env ups i st =
     (if i < length ups then
        (let r = upload_chunk env i (take CHUNK_SIZE (drop i ups)) st
         in case snd r of
              Some e \<Rightarrow> r
            | None \<Rightarrow> upload_loop env ups (i + CHUNK_SIZE) (fst r))
      else (st, None))"
  by pat_completeness auto
termination
  by (relation "measure (\<lambda>(env, ups, i, st). length ups - i)") (auto simp: CHUNK_SIZE_def)

declare upload_loop.simps [simp del]

text \<open>The chunks the loop cuts \<open>filesToUpload\<close> into, from index \<open>i\<close> on.\<close>

function batches :: "'a list \<Rightarrow> nat \<Rightarrow> 'a list list" where
  "batches xs i =
     (if i < length xs then take CHUNK_SIZE (drop i xs) # batches xs (i + CHUNK_SIZE) else [])"
  by pat_completeness auto
termination
  by (relation "measure (\<lambda>(xs, i). length xs - i)") (auto simp: CHUNK_SIZE_def)

declare batches.simps [simp del]

text \<open>Whether the upload of item \<open>k\<close> rejects: its file cannot be read, or its blob is refused.\<close>

definition upload_fails :: "Remote \<Rightarrow> nat \<Rightarrow> UploadItem \<Rightarrow> bool" where
  "upload_fails env k item =
     (case readFileAsBase64 (f_file (u_file item)) of
        Inl e \<Rightarrow> True
      | Inr base64 \<Rightarrow> (case createBlob env k base64 of Inl e \<Rightarrow> True | Inr blobSha \<Rightarrow> False))"

subsection \<open>Tree assembly\<close>

text \<open>
  The new entries followed by the remote entries that pass the four \<open>return\<close> guards.  An
  entry is copied field by field, which on these four fields is the entry itself.
\<close>

definition finalTree_of :: "SyncConfig \<Rightarrow> string \<Rightarrow> string set \<Rightarrow> string list \<Rightarrow> Uploads \<Rightarrow> GitTreeItem list \<Rightarrow> GitTreeItem list" where
  "finalTree_of config targetPrefix processed filesToDelete up tree =
     newTree up @
     filter (\<lambda>t. \<not> t_type t \<noteq> ''blob''
               \<and> \<not> t_path t \<in> set (uploadedPaths up)
               \<and> \<not> t_path t \<in> set filesToDelete
               \<and> \<not> (targetPrefix \<noteq> [] \<and> startsWith (t_path t) targetPrefix
                     \<and> t_path t \<notin> processed \<and> deleteMissing config)) tree"

subsection \<open>Committing\<close>

definition commit_message :: "Remote \<Rightarrow> SyncConfig \<Rightarrow> Analysis \<Rightarrow> string list \<Rightarrow> string" where
  "commit_message env config a filesToDelete =
     (if autoCommitMessage config
      then generateCommitMessage env (addedPaths a) (modifiedPaths a) filesToDelete
      else ''chore: sync '' @ toString10 (length (filesToUpload a)) @ '' files'')"

definition finish :: "App \<Rightarrow> App" where
  "finish app = addLog ''Sync completed successfully.'' LogSuccess (setSyncState SUCCESS app)"

definition commit_stage :: "Remote \<Rightarrow> string \<Rightarrow> string option \<Rightarrow> string \<Rightarrow> GitTreeItem list \<Rightarrow> App \<Rightarrow> App \<times> error option" where
  "commit_stage env b latestCommitSha commitMessage finalTree app =
     (let app1 = call (CreateTree finalTree) app
      in case createTree env finalTree of
           Inl e \<Rightarrow> (app1, Some e)
         | Inr newTreeSha \<Rightarrow>
             (let app2 = call (CreateCommit commitMessage newTreeSha (commit_parents latestCommitSha)) app1
              in case createCommit env commitMessage newTreeSha latestCommitSha of
                   Inl e \<Rightarrow> (app2, Some e)
                 | Inr newCommitSha \<Rightarrow>
                     if truthy latestCommitSha then
                       (let app3 = call (UpdateRef b newCommitSha) app2
                        in case updateRef env b newCommitSha of
                             Inl e \<Rightarrow> (app3, Some e)
                           | Inr u \<Rightarrow> (finish app3, None))
                     else
                       (let app3 = call (CreateRef b newCommitSha) app2
                        in case createRef env b newCommitSha of
                             Inl e \<Rightarrow> (app3, Some e)
                           | Inr u \<Rightarrow> (finish app3, None))))"

subsection \<open>The run\<close>

text \<open>The state and log entries of the Analyzing stage.\<close>

definition analyzed :: "SyncConfig \<Rightarrow> GitTreeItem list \<Rightarrow> bool \<Rightarrow> FileToSync list \<Rightarrow> App \<Rightarrow> App" where
  "analyzed config tree truncated files app =
     (let app1 = (if truncated \<and> deleteMissing config
                  then addLog (''Repo too large. '' @ [dquote] @ ''Delete missing'' @ [dquote] @ '' disabled safely.'') LogWarning app
                  else app);
          app2 = addLog ''Analyzing file signatures...'' LogInfo (setSyncState ANALYZING app1);
          a = fst (plan config tree truncated files);
          filesToDelete = snd (plan config tree truncated files)
      in addLog (''Analysis Complete: '' @ toString10 (length (filesToUpload a)) @ '' to upload, ''
                   @ toString10 (length filesToDelete) @ '' to delete.'') LogInfo app2)"

text \<open>
  What follows the scan inside the outer \<open>try\<close>, on the resolved head commit and the tree
  listing.  The result is the state reached and, when the \<open>try\<close> block threw, the error with
  the uploads still in flight and the uploads made so far.
\<close>

definition reconcile :: "Remote \<Rightarrow> SyncConfig \<Rightarrow> FileToSync list \<Rightarrow> string \<Rightarrow> string option \<Rightarrow> GitTreeItem list \<Rightarrow> bool \<Rightarrow> App \<Rightarrow> (Uploads \<times> App) \<times> rejection option" where
  "reconcile env config files b latestCommitSha tree truncated app =
     (let targetPrefix = targetPrefix_of config;
          a = fst (plan config tree truncated files);
          filesToDelete = snd (plan config tree truncated files);
          app3 = analyzed config tree truncated files app
      in if filesToUpload a = [] \<and> filesToDelete = [] then
           ((no_uploads, setSyncState SUCCESS (addLog ''Remote is already up to date!'' LogSuccess app3)), None)
         else
           (let r = upload_loop env (filesToUpload a) 0 (no_uploads, setSyncState UPLOADING app3)
            in case snd r of
                 Some rejected \<Rightarrow> r
               | None \<Rightarrow>
                   (let c = commit_stage env b latestCommitSha (commit_message env config a filesToDelete)
                              (finalTree_of config targetPrefix (processedRemotePaths a) filesToDelete (fst (fst r)) tree)
                              (setSyncState COMMITTING (snd (fst r)))
                    in ((fst (fst r), fst c), map_option (\<lambda>e. (e, [])) (snd c)))))"

text \<open>
  \<open>startSync\<close>.  \<open>isConnected\<close> and the parsed repository reference are inputs: the URL
  parser of the platform that \<open>parseRepoUrl\<close> relies on is not modelled.  The \<open>catch\<close> block
  runs as soon as the \<open>try\<close> block throws, before the uploads still in flight settle.
\<close>

definition startSync :: "Remote \<Rightarrow> bool \<Rightarrow> RepoDetails option \<Rightarrow> SyncConfig \<Rightarrow> FileToSync list \<Rightarrow> App \<Rightarrow> App" where
  "startSync env isConnected repoDetails config files app =
     (if \<not> isConnected then app
      else if repoDetails = None then app
      else if files = [] \<and> \<not> deleteMissing config then addLog ''No files selected.'' LogWarning app
      else
        (let app1 = addLog (''Targeting branch: '' @ defaultBranch config) LogInfo (setSyncState SCANNING app);
             s = scan env (defaultBranch config) app1;
             r = reconcile env config files (defaultBranch config)
                   (fst (fst s)) (fst (snd (fst s))) (snd (snd (fst s))) (snd s)
         in case snd r of
              None \<Rightarrow> snd (fst r)
            | Some rejected \<Rightarrow>
                (case fst rejected of
                   Error m \<Rightarrow>
                     snd (late_uploads env (snd rejected)
                            (fst (fst r), addLog (''Error: '' @ m) LogError (setSyncState ERROR (snd (fst r))))))))"

subsection \<open>Invariant of the analysis\<close>

text \<open>
  What the loop maintains: an upload is marked new exactly when the remote map has no
  (truthy) identity for its path, skipped paths have one, and the touched set is the set of
  skipped and modified paths.
\<close>

definition analysis_ok :: "(string \<rightharpoonup> string) \<Rightarrow> Analysis \<Rightarrow> bool" where
  "analysis_ok m a \<longleftrightarrow>
     (\<forall>u \<in> set (filesToUpload a). isNew u = (\<not> truthy (m (remotePath u)))) \<and>
     (\<forall>p \<in> set (filesSkipped a). truthy (m p)) \<and>
     processedRemotePaths a = set (filesSkipped a) \<union> set (modifiedPaths a)"

section \<open>Views of a run\<close>

text \<open>The kinds of request: the two reads, and the tree, commit and ref requests.\<close>

fun is_read :: "api_call \<Rightarrow> bool" where
  "is_read (GetRef b) = True"
| "is_read (GetTreeRecursive s) = True"
| "is_read c = False"

fun tree_commit_or_ref :: "api_call \<Rightarrow> bool" where
  "tree_commit_or_ref (CreateTree t) = True"
| "tree_commit_or_ref (CreateCommit m t ps) = True"
| "tree_commit_or_ref (UpdateRef b s) = True"
| "tree_commit_or_ref (CreateRef b s) = True"
| "tree_commit_or_ref c = False"

text \<open>The state before a run, with nothing logged and nothing requested.\<close>

definition idle :: App where
  "idle = \<lparr>syncState = IDLE, stages = [], logs = [], calls = []\<rparr>"

text \<open>What the scan of a run resolves: head commit, tree listing and truncation flag.\<close>

definition snapshot :: "Remote \<Rightarrow> SyncConfig \<Rightarrow> string option \<times> GitTreeItem list \<times> bool" where
  "snapshot env config = fst (scan env (defaultBranch config) idle)"

text \<open>The chunks of the upload loop run one after the other, up to the first that rejects.\<close>

fun upload_batches :: "Remote \<Rightarrow> nat \<Rightarrow> UploadItem list list \<Rightarrow> Uploads \<times> App \<Rightarrow> (Uploads \<times> App) \<times> rejection option" where
  "upload_batches env i [] st = (st, None)"
| "upload_batches env i (chunk # rest) st =
     (if snd (upload_chunk env i chunk st) = None
      then upload_batches env (i + CHUNK_SIZE) rest (fst (upload_chunk env i chunk st))
      else upload_chunk env i chunk st)"

text \<open>
  The items of the upload list in the order in which their uploads settle: chunk after chunk,
  each chunk in its settle order.
\<close>

function settled :: "Remote \<Rightarrow> UploadItem list \<Rightarrow> nat \<Rightarrow> UploadItem list" where
  "settled env ups i =
     (if i < length ups
      then map snd (settle_order env i (take CHUNK_SIZE (drop i ups))) @ settled env ups (i + CHUNK_SIZE)
      else [])"
  by pat_completeness auto
termination
  by (relation "measure (\<lambda>(env, ups, i). length ups - i)") (auto simp: CHUNK_SIZE_def)

declare settled.simps [simp del]

section \<open>Concrete inputs\<close>

text \<open>
  Files, tree entries, configurations and remotes for the concrete runs below.  \<open>remote_with\<close>
  is a remote that resolves the branch, lists the given tree and accepts every request, with
  the uploads of a chunk settling in list order; it has no API key for the message
  generator, whose generation would fail.
\<close>

definition readable :: "byte list \<Rightarrow> string \<Rightarrow> File" where
  "readable b base64 = \<lparr>arrayBuffer = Inr b, readFileAsBase64 = Inr base64\<rparr>"

definition new_file :: "string \<Rightarrow> FileToSync" where
  "new_file p = \<lparr>f_path = p, f_file = readable [] p\<rparr>"

definition blob_entry :: "string \<Rightarrow> string \<Rightarrow> GitTreeItem" where
  "blob_entry p s = \<lparr>t_path = p, t_mode = ''100644'', t_type = ''blob'', t_sha = s\<rparr>"

definition plain_config :: SyncConfig where
  "plain_config =
     \<lparr>token = ''t'', repoUrl = ''owner/repo'', branch = ''main'', targetPath = [],
      deleteMissing = False, autoCommitMessage = False\<rparr>"

definition src_config :: SyncConfig where
  "src_config = plain_config\<lparr>targetPath := ''src'', deleteMissing := True\<rparr>"

definition some_repo :: "RepoDetails option" where
  "some_repo = Some \<lparr>owner = ''owner'', repo = ''repo''\<rparr>"

definition twin_files :: "FileToSync list" where
  "twin_files =
     [\<lparr>f_path = ''a.txt'', f_file = readable [] []\<rparr>,
      \<lparr>f_path = ''a.txt'', f_file = readable [0x61] ''YQ==''\<rparr>]"

definition twelve_files :: "FileToSync list" where
  "twelve_files =
     [new_file ''f00'', new_file ''f01'', new_file ''f02'', new_file ''f03'', new_file ''f04'',
      new_file ''f05'', new_file ''f06'', new_file ''f07'', new_file ''f08'', new_file ''f09'',
      new_file ''f10'', new_file ''f11'']"

definition remote_with :: "GitTreeItem list \<Rightarrow> bool \<Rightarrow> Remote" where
  "remote_with tree truncated =
     \<lparr>ref_response = (\<lambda>b. Ok ''head''),
      tree_response = (\<lambda>s. Ok (tree, truncated)),
      blob_response = (\<lambda>k c. Ok (''blob-of-'' @ c)),
      newTree_response = (\<lambda>t. Ok ''tree1''),
      commit_response = (\<lambda>m t ps. Ok ''commit1''),
      updateRef_response = (\<lambda>b s. Ok ()),
      createRef_response = (\<lambda>b s. Ok ()),
      settles_at = (\<lambda>k. k),
      API_KEY = [],
      generateContent = (\<lambda>a m d. Inl (Error ''unavailable''))\<rparr>"

definition eighth_upload_refused :: Remote where
  "eighth_upload_refused =
     (remote_with [] False)\<lparr>blob_response := (\<lambda>k c. if k = 7 then NotOk 500 None else Ok (''blob-of-'' @ c))\<rparr>"

definition truncated_remote :: Remote where
  "truncated_remote = remote_with [blob_entry ''src/old.txt'' ''e69de29bb2d1d6434b8b29ae775ad8c2e48c5391''] True"

definition ref_lookup_answers :: "string response \<Rightarrow> Remote" where
  "ref_lookup_answers r = (remote_with [] False)\<lparr>ref_response := (\<lambda>b. r)\<rparr>"

section \<open>The content hasher computes Git blob identities\<close>

lemma array_set_header:
  "array_set (replicate (length hb + n) 0) hb 0 = Inr (hb @ replicate n 0)"
  by (simp add: array_set_def)

lemma array_set_content:
  "array_set (hb @ replicate (length buf) 0) buf (length hb) = Inr (hb @ buf)"
  by (simp add: array_set_def)

lemma combined_buffer:
  "(case array_set (replicate (length hb + length buf) 0) hb 0 of
      Inl e \<Rightarrow> Inl e
    | Inr c1 \<Rightarrow> (case array_set c1 buf (length hb) of Inl e \<Rightarrow> Inl e | Inr c \<Rightarrow> Inr (F c)))
   = Inr (F (hb @ buf))"
  by (simp add: array_set_header array_set_content)

lemma toString16_byte:
  "n < 256 \<Longrightarrow>
   toString16 n = (if n < 16 then [digit_char n] else [digit_char (n div 16), digit_char (n mod 16)])"
  unfolding toString16_def
  apply (subst toString_radix.simps)
  apply (subst toString_radix.simps)
  apply auto
  done

lemma byte_hex_eq: "byte_hex b = [digit_char (unat b div 16), digit_char (unat b mod 16)]"
proof -
  have lt: "unat b < 256"
    using unsigned_less [of b, where 'a = nat] by simp
  show ?thesis
    using lt by (auto simp: byte_hex_def toString16_byte padStart_def digit_char_def)
qed

lemma hex_agree: "concat (map byte_hex bs) = hex_lower bs"
proof -
  have "byte_hex = (\<lambda>b. [digit_char (unat b div 16), digit_char (unat b mod 16)])"
    by (rule ext) (rule byte_hex_eq)
  then show ?thesis by (simp add: hex_lower_def)
qed

lemma computeGitBlobSha_readable:
  "computeGitBlobSha (file\<lparr>arrayBuffer := Inr b\<rparr>) = Inr (git_blob_id b)"
  apply (simp only: computeGitBlobSha_def git_blob_id_def Let_def length_replicate combined_buffer hex_agree)
  apply (simp add: text_encode_def)
  done

lemma toString10_0: "toString10 0 = ''0''"
  unfolding toString10_def by (subst toString_radix.simps) (simp add: digit_char_def)

lemma digit_char_code: "d < 10 \<Longrightarrow> of_char (digit_char d) = 48 + d"
proof -
  assume "d < 10"
  then have "d \<in> {0, 1, 2, 3, 4, 5, 6, 7, 8, 9}"
    by (simp; presburger)
  then show ?thesis
    by (auto simp: digit_char_def)
qed

text \<open>\<open>toString10\<close> writes the decimal numeral of its argument: reading the digits back gives it.\<close>

lemma toString10_reads_back:
  "foldl (\<lambda>acc c. 10 * acc + (of_char c - 48)) 0 (toString10 n) = n"
  unfolding toString10_def
proof (induction "10 :: nat" n rule: toString_radix.induct)
  case (1 n)
  show ?case
  proof (cases "n < 10")
    case True
    then show ?thesis
      by (subst toString_radix.simps) (simp add: digit_char_code)
  next
    case False
    with 1 have ih: "foldl (\<lambda>acc c. 10 * acc + (of_char c - 48)) 0 (toString_radix 10 (n div 10)) = n div 10"
      by simp
    have "n mod 10 < 10" by simp
    then have d: "of_char (digit_char (n mod 10)) - 48 = n mod 10"
      by (simp add: digit_char_code)
    show ?thesis
      by (subst toString_radix.simps) (simp add: False ih d)
  qed
qed

text \<open>Unfolding the counted recursions on numerals, one step at a time.\<close>

lemma sha1_loop_numeral:
  "sha1_loop (numeral k) t win s =
     sha1_loop (pred_numeral k) (t + 1)
       (tl win @ [rotl32 1 (win ! 13 XOR win ! 8 XOR win ! 2 XOR win ! 0)])
       (sha1_round s (t, win ! 0))"
  by (simp only: numeral_eq_Suc [of k] sha1_loop.simps)

lemma chunks_of_numeral:
  "chunks_of (numeral k) n xs = take n xs # chunks_of (pred_numeral k) n (drop n xs)"
  by (simp only: numeral_eq_Suc [of k] chunks_of.simps)

lemma be_bytes_numeral:
  "be_bytes (numeral k) n = be_bytes (pred_numeral k) (n div 256) @ [n mod 256]"
  by (simp only: numeral_eq_Suc [of k] be_bytes.simps)

lemma replicate_num: "replicate (numeral k) x = x # replicate (pred_numeral k) x"
  by (simp only: numeral_eq_Suc [of k] replicate.simps)

text \<open>The digest of the seven bytes \<open>blob 0\<close>, NUL: padding, schedule words, eighty rounds.\<close>

lemma pad_empty_blob:
  "sha1_pad (map unat (text_encode ''blob 0'' @ [0])) =
   [98, 108, 111, 98, 32, 48, 0, 128, 0, 0, 0, 0, 0, 0, 0, 0, 0, 0, 0, 0, 0, 0, 0, 0, 0, 0, 0, 0, 0, 0, 0, 0,
    0, 0, 0, 0, 0, 0, 0, 0, 0, 0, 0, 0, 0, 0, 0, 0, 0, 0, 0, 0, 0, 0, 0, 0, 0, 0, 0, 0, 0, 0, 0, 56]"
  by (simp add: sha1_pad_def text_encode_def be_bytes_numeral replicate_num)

lemma words_empty_blob:
  "sha1_words
   [98, 108, 111, 98, 32, 48, 0, 128, 0, 0, 0, 0, 0, 0, 0, 0, 0, 0, 0, 0, 0, 0, 0, 0, 0, 0, 0, 0, 0, 0, 0, 0,
    0, 0, 0, 0, 0, 0, 0, 0, 0, 0, 0, 0, 0, 0, 0, 0, 0, 0, 0, 0, 0, 0, 0, 0, 0, 0, 0, 0, 0, 0, 0, 56]
   = [1651273570, 540016768, 0, 0, 0, 0, 0, 0, 0, 0, 0, 0, 0, 0, 0, 56]"
  by (simp add: sha1_words_def chunks_of_numeral be_word_def)

lemma loop_empty_blob:
  "sha1_loop 80 0 [1651273570, 540016768, 0, 0, 0, 0, 0, 0, 0, 0, 0, 0, 0, 0, 0, 56] sha1_init
   = (2136522650, 3271830202, 2999995568, 1730708556, 549024161)"
  by (simp add: sha1_loop_numeral sha1_init_def rotl32_def sha1_f_def sha1_k_def add32_def not32_def)

lemma sha1_empty_blob:
  "sha1 (text_encode ''blob 0'' @ [0]) =
     [230, 157, 226, 155, 178, 209, 214, 67, 75, 139, 41, 174, 119, 90, 216,
      194, 228, 140, 83, 145]"
  apply (simp only: sha1_def Let_def pad_empty_blob)
  apply (simp add: sha1_init_def words_empty_blob loop_empty_blob [unfolded sha1_init_def]
           add32_def be_bytes_numeral del: sha1_loop.simps)
  done

lemma git_blob_id_empty: "git_blob_id [] = ''e69de29bb2d1d6434b8b29ae775ad8c2e48c5391''"
proof -
  have "text_encode ''blob '' @ text_encode (toString10 (length ([] :: byte list))) @ [0] @ []
      = text_encode ''blob 0'' @ [0]"
    by (simp add: toString10_0 text_encode_def)
  then show ?thesis
    unfolding git_blob_id_def by (simp only: sha1_empty_blob) (simp add: hex_lower_def digit_char_def)
qed

text \<open>
  Claim C2.  For every byte content \<open>b\<close> of a readable file the hasher returns the Git blob
  identity of \<open>b\<close>: the SHA-1 of \<open>blob\<close>, a space, the decimal length of \<open>b\<close>, one NUL byte and
  \<open>b\<close>, in lowercase hexadecimal.  Being a function of \<open>b\<close> alone it is deterministic.  The
  empty content hashes to Git's empty-blob identity.
\<close>

theorem computeGitBlobSha_is_git_blob_id:
  "computeGitBlobSha (file\<lparr>arrayBuffer := Inr b\<rparr>) = Inr (git_blob_id b) \<and>
   computeGitBlobSha (file\<lparr>arrayBuffer := Inr []\<rparr>) = Inr ''e69de29bb2d1d6434b8b29ae775ad8c2e48c5391''"
  by (simp only: computeGitBlobSha_readable git_blob_id_empty)

section \<open>Diff classification\<close>

lemma analyze_file_paths:
  "set (filesSkipped (analyze_file m pre f a)) \<union> remotePath ` set (filesToUpload (analyze_file m pre f a))
   = insert (sanitizeGitPath (pre @ f_path f)) (set (filesSkipped a) \<union> remotePath ` set (filesToUpload a))"
  by (auto simp: analyze_file_def Let_def to_upload_def split: sum.splits)

lemma analyze_paths:
  "set (filesSkipped (analyze m pre fs a)) \<union> remotePath ` set (filesToUpload (analyze m pre fs a))
   = set (filesSkipped a) \<union> remotePath ` set (filesToUpload a) \<union> (\<lambda>f. sanitizeGitPath (pre @ f_path f)) ` set fs"
proof (induction fs arbitrary: a)
  case Nil
  then show ?case by simp
next
  case (Cons f fs)
  show ?case
    unfolding analyze.simps Cons.IH analyze_file_paths by auto
qed

lemma analyze_file_distinct:
  assumes "distinct (filesSkipped a @ map remotePath (filesToUpload a))"
    and "sanitizeGitPath (pre @ f_path f) \<notin> set (filesSkipped a) \<union> remotePath ` set (filesToUpload a)"
  shows "distinct (filesSkipped (analyze_file m pre f a) @ map remotePath (filesToUpload (analyze_file m pre f a)))"
  using assms by (auto simp: analyze_file_def Let_def to_upload_def split: sum.splits)

lemma analyze_distinct:
  assumes "distinct (map (\<lambda>f. sanitizeGitPath (pre @ f_path f)) fs)"
    and "distinct (filesSkipped a @ map remotePath (filesToUpload a))"
    and "(\<lambda>f. sanitizeGitPath (pre @ f_path f)) ` set fs \<inter> (set (filesSkipped a) \<union> remotePath ` set (filesToUpload a)) = {}"
  shows "distinct (filesSkipped (analyze m pre fs a) @ map remotePath (filesToUpload (analyze m pre fs a)))"
  using assms
proof (induction fs arbitrary: a)
  case Nil
  then show ?case by simp
next
  case (Cons f fs)
  let ?p = "sanitizeGitPath (pre @ f_path f)"
  let ?a = "analyze_file m pre f a"
  have fresh: "?p \<notin> set (filesSkipped a) \<union> remotePath ` set (filesToUpload a)"
    using Cons.prems(3) by auto
  have d: "distinct (filesSkipped ?a @ map remotePath (filesToUpload ?a))"
    by (rule analyze_file_distinct [OF Cons.prems(2) fresh])
  have disj: "(\<lambda>f. sanitizeGitPath (pre @ f_path f)) ` set fs
              \<inter> (set (filesSkipped ?a) \<union> remotePath ` set (filesToUpload ?a)) = {}"
    unfolding analyze_file_paths using Cons.prems(1,3) by auto
  have "distinct (map (\<lambda>f. sanitizeGitPath (pre @ f_path f)) fs)"
    using Cons.prems(1) by simp
  from Cons.IH [OF this d disj] show ?case by simp
qed

lemma analyze_file_cases:
  "\<not> truthy (m (sanitizeGitPath (pre @ f_path f))) \<and>
     analyze_file m pre f a = to_upload f (sanitizeGitPath (pre @ f_path f)) True a
   \<or> truthy (m (sanitizeGitPath (pre @ f_path f))) \<and>
     analyze_file m pre f a =
       a\<lparr>processedRemotePaths := insert (sanitizeGitPath (pre @ f_path f)) (processedRemotePaths a),
         filesSkipped := filesSkipped a @ [sanitizeGitPath (pre @ f_path f)]\<rparr>
   \<or> truthy (m (sanitizeGitPath (pre @ f_path f))) \<and>
     analyze_file m pre f a =
       to_upload f (sanitizeGitPath (pre @ f_path f)) False
         (a\<lparr>processedRemotePaths := insert (sanitizeGitPath (pre @ f_path f)) (processedRemotePaths a)\<rparr>)"
  by (simp add: analyze_file_def Let_def split: sum.splits)

lemma analyze_file_ok:
  assumes "analysis_ok m a"
  shows "analysis_ok m (analyze_file m pre f a)"
  using analyze_file_cases [of m pre f a] assms
  by (elim disjE conjE) (auto simp: analysis_ok_def to_upload_def modifiedPaths_def)

lemma analyze_ok: "analysis_ok m a \<Longrightarrow> analysis_ok m (analyze m pre fs a)"
  by (induction fs arbitrary: a) (simp_all add: analyze_file_ok)

lemma no_analysis_ok: "analysis_ok m no_analysis"
  by (simp add: analysis_ok_def no_analysis_def modifiedPaths_def)

lemma split_by_isNew:
  "distinct (map remotePath us) \<Longrightarrow>
   distinct (map remotePath (filter (\<lambda>f. isNew f) us) @ map remotePath (filter (\<lambda>f. \<not> isNew f) us))"
  by (induction us) auto

lemma delete_pass_eq:
  "delete_pass pre processed tree acc =
     acc @ map t_path (filter (\<lambda>item. t_type item = ''blob''
                                  \<and> (pre = [] \<or> startsWith (t_path item) pre)
                                  \<and> t_path item \<notin> processed) tree)"
  by (induction tree arbitrary: acc) auto

lemma remoteFileMap_of_snoc:
  "remoteFileMap_of (tree @ [item]) =
     (if t_type item = ''blob'' then (remoteFileMap_of tree)(t_path item \<mapsto> t_sha item) else remoteFileMap_of tree)"
  by (simp add: remoteFileMap_of_def)

lemma remoteFileMap_of_truthy:
  assumes "\<forall>item \<in> set tree. t_type item = ''blob'' \<longrightarrow> t_sha item \<noteq> []"
    and "item \<in> set tree" and "t_type item = ''blob''"
  shows "truthy (remoteFileMap_of tree (t_path item))"
  using assms
proof (induction tree rule: rev_induct)
  case Nil
  then show ?case by simp
next
  case (snoc x xs)
  then show ?case
    by (auto simp: remoteFileMap_of_snoc)
qed


lemma computeGitBlobSha_of_readable: "computeGitBlobSha (readable b x) = Inr (git_blob_id b)"
  using computeGitBlobSha_readable [of b "readable b x"] by (simp add: readable_def)

lemma toString10_1: "toString10 (Suc 0) = ''1''"
  unfolding toString10_def by (subst toString_radix.simps) (simp add: digit_char_def)

lemma pad_blob_a:
  "sha1_pad (map unat (text_encode ''blob 1'' @ [0, 0x61])) =
   [98, 108, 111, 98, 32, 49, 0, 97, 128, 0, 0, 0, 0, 0, 0, 0, 0, 0, 0, 0, 0, 0, 0, 0, 0, 0, 0, 0, 0, 0, 0, 0,
    0, 0, 0, 0, 0, 0, 0, 0, 0, 0, 0, 0, 0, 0, 0, 0, 0, 0, 0, 0, 0, 0, 0, 0, 0, 0, 0, 0, 0, 0, 0, 64]"
  by (simp add: sha1_pad_def text_encode_def be_bytes_numeral replicate_num)

lemma words_blob_a:
  "sha1_words
   [98, 108, 111, 98, 32, 49, 0, 97, 128, 0, 0, 0, 0, 0, 0, 0, 0, 0, 0, 0, 0, 0, 0, 0, 0, 0, 0, 0, 0, 0, 0, 0,
    0, 0, 0, 0, 0, 0, 0, 0, 0, 0, 0, 0, 0, 0, 0, 0, 0, 0, 0, 0, 0, 0, 0, 0, 0, 0, 0, 0, 0, 0, 0, 64]
   = [1651273570, 540082273, 2147483648, 0, 0, 0, 0, 0, 0, 0, 0, 0, 0, 0, 0, 64]"
  by (simp add: sha1_words_def chunks_of_numeral be_word_def)

lemma loop_blob_a:
  "sha1_loop 80 0 [1651273570, 540082273, 2147483648, 0, 0, 0, 0, 0, 0, 0, 0, 0, 0, 0, 0, 64] sha1_init
   = (3340815585, 2977444382, 1435956342, 40346578, 569152318)"
  by (simp add: sha1_loop_numeral sha1_init_def rotl32_def sha1_f_def sha1_k_def add32_def not32_def)

lemma sha1_blob_a:
  "sha1 (text_encode ''blob 1'' @ [0, 0x61]) =
     [46, 101, 239, 226, 161, 69, 221, 167, 238, 81, 209, 116, 18, 153, 248, 72, 229, 191, 117, 46]"
  apply (simp only: sha1_def Let_def pad_blob_a)
  apply (simp add: sha1_init_def words_blob_a loop_blob_a [unfolded sha1_init_def]
           add32_def be_bytes_numeral del: sha1_loop.simps)
  done

lemma git_blob_id_a: "git_blob_id [0x61] = ''2e65efe2a145dda7ee51d1741299f848e5bf752e''"
proof -
  have "text_encode ''blob '' @ text_encode (toString10 (length [0x61 :: byte])) @ [0] @ [0x61]
      = text_encode ''blob 1'' @ [0, 0x61]"
    by (simp add: toString10_1 text_encode_def)
  then show ?thesis
    unfolding git_blob_id_def by (simp only: sha1_blob_a) (simp add: hex_lower_def digit_char_def)
qed

lemma sanitize_a_txt: "sanitizeGitPath ''a.txt'' = ''a.txt''"
  by (simp add: sanitizeGitPath_def slash_def backslash_def)

text \<open>
  Two local files with the same combined path, one with the content the remote has and one
  with another content: the path is listed as unchanged and as modified.
\<close>

theorem same_path_in_two_classes:
  "filesSkipped (fst (plan plain_config [blob_entry ''a.txt'' ''e69de29bb2d1d6434b8b29ae775ad8c2e48c5391''] False twin_files)) = [''a.txt''] \<and>
   modifiedPaths (fst (plan plain_config [blob_entry ''a.txt'' ''e69de29bb2d1d6434b8b29ae775ad8c2e48c5391''] False twin_files)) = [''a.txt'']"
  by (simp add: plan_def plain_config_def targetPrefix_of_def twin_files_def blob_entry_def
        remoteFileMap_of_def analyze_file_def sanitize_a_txt computeGitBlobSha_of_readable
        git_blob_id_empty git_blob_id_a no_analysis_def to_upload_def modifiedPaths_def Let_def)


lemma plan_analysis:
  "fst (plan config tree truncated files)
     = analyze (remoteFileMap_of tree) (targetPrefix_of config) files no_analysis"
  by (simp add: plan_def Let_def)

lemma plan_deletes:
  "snd (plan config tree truncated files)
     = filesToDelete_of config truncated (targetPrefix_of config)
         (processedRemotePaths (fst (plan config tree truncated files))) tree"
  by (simp add: plan_def Let_def)

lemma upload_paths_split:
  "set (addedPaths a) \<union> set (modifiedPaths a) = remotePath ` set (filesToUpload a)"
  by (auto simp: addedPaths_def modifiedPaths_def)

text \<open>
  Claim C1, as amended.  When the combined remote paths of the local files are pairwise
  distinct and every remote blob has a non-empty identity, the Analyzing pass puts each
  combined path in exactly one of unchanged, new and modified: the three lists together have
  no repeated path, their union is the set of combined paths, and no path scheduled for
  deletion is in any of them.
\<close>

theorem analysis_partitions_distinct_paths:
  assumes dist: "distinct (map (\<lambda>f. sanitizeGitPath (targetPrefix_of config @ f_path f)) files)"
    and shas: "\<forall>item \<in> set tree. t_type item = ''blob'' \<longrightarrow> t_sha item \<noteq> []"
  shows "set (filesSkipped (fst (plan config tree truncated files)))
           \<union> set (addedPaths (fst (plan config tree truncated files)))
           \<union> set (modifiedPaths (fst (plan config tree truncated files)))
         = (\<lambda>f. sanitizeGitPath (targetPrefix_of config @ f_path f)) ` set files
       \<and> distinct (filesSkipped (fst (plan config tree truncated files))
                   @ addedPaths (fst (plan config tree truncated files))
                   @ modifiedPaths (fst (plan config tree truncated files)))
       \<and> set (snd (plan config tree truncated files))
           \<inter> (set (filesSkipped (fst (plan config tree truncated files)))
                \<union> set (addedPaths (fst (plan config tree truncated files)))
                \<union> set (modifiedPaths (fst (plan config tree truncated files)))) = {}"
proof -
  let ?m = "remoteFileMap_of tree"
  let ?pre = "targetPrefix_of config"
  define a where "a = fst (plan config tree truncated files)"
  define dels where "dels = snd (plan config tree truncated files)"
  have a_eq: "a = analyze ?m ?pre files no_analysis"
    by (simp add: a_def plan_analysis)
  have ok: "analysis_ok ?m a"
    unfolding a_eq by (rule analyze_ok [OF no_analysis_ok])
  have paths: "set (filesSkipped a) \<union> remotePath ` set (filesToUpload a)
                 = (\<lambda>f. sanitizeGitPath (?pre @ f_path f)) ` set files"
    unfolding a_eq analyze_paths by (simp add: no_analysis_def)
  have d0: "distinct (filesSkipped a @ map remotePath (filesToUpload a))"
    unfolding a_eq by (rule analyze_distinct [OF dist]) (simp_all add: no_analysis_def)
  have union: "set (filesSkipped a) \<union> set (addedPaths a) \<union> set (modifiedPaths a)
                 = (\<lambda>f. sanitizeGitPath (?pre @ f_path f)) ` set files"
    by (simp only: paths [symmetric] upload_paths_split [symmetric] Un_assoc)
  have d1: "distinct (addedPaths a @ modifiedPaths a)"
    unfolding addedPaths_def modifiedPaths_def using d0 by (intro split_by_isNew) simp
  have d: "distinct (filesSkipped a @ addedPaths a @ modifiedPaths a)"
    using d0 d1 upload_paths_split [of a] by auto
  have dels_sub: "set dels \<subseteq> {t_path item | item. item \<in> set tree \<and> t_type item = ''blob''
                                   \<and> t_path item \<notin> processedRemotePaths a}"
    unfolding dels_def a_def plan_deletes filesToDelete_of_def
    by (auto simp: delete_pass_eq)
  have "p \<notin> set (filesSkipped a) \<union> set (addedPaths a) \<union> set (modifiedPaths a)" if p: "p \<in> set dels" for p
  proof -
    from p dels_sub obtain item where item: "item \<in> set tree" "t_type item = ''blob''"
      "t_path item = p" "p \<notin> processedRemotePaths a"
      by auto
    have "truthy (?m p)"
      using remoteFileMap_of_truthy [OF shas item(1,2)] item(3) by simp
    then have "p \<notin> set (addedPaths a)"
      using ok by (auto simp: analysis_ok_def addedPaths_def)
    moreover have "p \<notin> set (filesSkipped a) \<union> set (modifiedPaths a)"
      using ok item(4) by (simp add: analysis_ok_def)
    ultimately show ?thesis by simp
  qed
  then have disj: "set dels \<inter> (set (filesSkipped a) \<union> set (addedPaths a) \<union> set (modifiedPaths a)) = {}"
    by blast
  show ?thesis
    using union d disj unfolding a_def dels_def by simp
qed

theorem analysis_partitions_distinct_paths_witness:
  "distinct (map (\<lambda>f. sanitizeGitPath (targetPrefix_of (plain_config\<lparr>deleteMissing := True\<rparr>) @ f_path f))
               [\<lparr>f_path = ''a.txt'', f_file = readable [0x61] ''YQ==''\<rparr>])
   \<and> addedPaths (fst (plan (plain_config\<lparr>deleteMissing := True\<rparr>)
          [blob_entry ''b.txt'' ''e69de29bb2d1d6434b8b29ae775ad8c2e48c5391''] False
          [\<lparr>f_path = ''a.txt'', f_file = readable [0x61] ''YQ==''\<rparr>])) = [''a.txt'']
   \<and> snd (plan (plain_config\<lparr>deleteMissing := True\<rparr>)
          [blob_entry ''b.txt'' ''e69de29bb2d1d6434b8b29ae775ad8c2e48c5391''] False
          [\<lparr>f_path = ''a.txt'', f_file = readable [0x61] ''YQ==''\<rparr>]) = [''b.txt'']
   \<and> set [''b.txt''] \<inter> set [''a.txt''] = {}"
proof -
  have h1: "distinct (map (\<lambda>f. sanitizeGitPath (targetPrefix_of (plain_config\<lparr>deleteMissing := True\<rparr>) @ f_path f))
               [\<lparr>f_path = ''a.txt'', f_file = readable [0x61] ''YQ==''\<rparr>])"
    by simp
  have h2: "\<forall>item \<in> set [blob_entry ''b.txt'' ''e69de29bb2d1d6434b8b29ae775ad8c2e48c5391''].
          t_type item = ''blob'' \<longrightarrow> t_sha item \<noteq> []"
    by (simp add: blob_entry_def)
  have added: "addedPaths (fst (plan (plain_config\<lparr>deleteMissing := True\<rparr>)
          [blob_entry ''b.txt'' ''e69de29bb2d1d6434b8b29ae775ad8c2e48c5391''] False
          [\<lparr>f_path = ''a.txt'', f_file = readable [0x61] ''YQ==''\<rparr>])) = [''a.txt'']"
    by (simp add: plan_def plain_config_def targetPrefix_of_def blob_entry_def
        remoteFileMap_of_def analyze_file_def sanitize_a_txt no_analysis_def to_upload_def addedPaths_def Let_def)
  have dels: "snd (plan (plain_config\<lparr>deleteMissing := True\<rparr>)
          [blob_entry ''b.txt'' ''e69de29bb2d1d6434b8b29ae775ad8c2e48c5391''] False
          [\<lparr>f_path = ''a.txt'', f_file = readable [0x61] ''YQ==''\<rparr>]) = [''b.txt'']"
    by (simp add: plan_def plain_config_def targetPrefix_of_def blob_entry_def filesToDelete_of_def
        remoteFileMap_of_def analyze_file_def sanitize_a_txt no_analysis_def to_upload_def Let_def)
  from analysis_partitions_distinct_paths [OF h1 h2, of False]
  have "set [''b.txt''] \<inter> set [''a.txt''] = {}"
    unfolding added dels by blast
  with h1 added dels show ?thesis by blast
qed

section \<open>Scope of delete-missing\<close>

lemma sanitize_src: "sanitizeGitPath ''src'' = ''src''"
  by (simp add: sanitizeGitPath_def slash_def backslash_def)

lemma deletes_in_scope:
  assumes "p \<in> set (snd (plan config tree truncated files))"
  shows "targetPrefix_of config = [] \<or> startsWith p (targetPrefix_of config)"
  using assms
  by (auto simp: plan_deletes filesToDelete_of_def delete_pass_eq split: if_splits)

text \<open>
  With target path \<open>src\<close> the prefix compared against is \<open>src/\<close>: the remote blob
  \<open>src2/file\<close> does not start with it and is not scheduled for deletion.
\<close>

theorem src2_not_in_src_scope:
  "targetPrefix_of (plain_config\<lparr>targetPath := ''src'', deleteMissing := True\<rparr>) = ''src/'' \<and>
   \<not> startsWith ''src2/file'' (targetPrefix_of (plain_config\<lparr>targetPath := ''src'', deleteMissing := True\<rparr>)) \<and>
   snd (plan (plain_config\<lparr>targetPath := ''src'', deleteMissing := True\<rparr>)
          [blob_entry ''src2/file'' ''e69de29bb2d1d6434b8b29ae775ad8c2e48c5391''] False []) = []"
  by (simp add: plan_def plain_config_def targetPrefix_of_def sanitize_src slash_def startsWith_def
        blob_entry_def filesToDelete_of_def Let_def no_analysis_def)

text \<open>
  Claim C9, as amended.  Delete-missing scoping compares remote paths against the sanitized
  target path followed by a slash, so a match ends at a path-segment boundary: every path
  scheduled for deletion under a target path starts with that path and a slash, and with
  target path \<open>src\<close> the remote blob \<open>src2/file\<close> is never scheduled for deletion.
\<close>

theorem delete_scope_ends_at_segment:
  assumes "targetPath config \<noteq> []"
    and "p \<in> set (snd (plan config tree truncated files))"
  shows "startsWith p (sanitizeGitPath (targetPath config) @ [slash]) \<and>
         ''src2/file'' \<notin> set (snd (plan (config\<lparr>targetPath := ''src''\<rparr>) tree truncated files))"
proof -
  have pre: "targetPrefix_of config = sanitizeGitPath (targetPath config) @ [slash]"
    using assms(1) by (simp add: targetPrefix_of_def)
  have one: "startsWith p (sanitizeGitPath (targetPath config) @ [slash])"
    using deletes_in_scope [OF assms(2)] pre by auto
  have src: "targetPrefix_of (config\<lparr>targetPath := ''src''\<rparr>) = ''src/''"
    by (simp add: targetPrefix_of_def sanitize_src slash_def)
  have "\<not> startsWith ''src2/file'' ''src/''"
    by (simp add: startsWith_def)
  then have two: "''src2/file'' \<notin> set (snd (plan (config\<lparr>targetPath := ''src''\<rparr>) tree truncated files))"
    using deletes_in_scope [of "''src2/file''" "config\<lparr>targetPath := ''src''\<rparr>" tree truncated files] src
    by auto
  from one two show ?thesis ..
qed

theorem delete_scope_ends_at_segment_witness:
  "snd (plan (plain_config\<lparr>targetPath := ''src'', deleteMissing := True\<rparr>)
          [blob_entry ''src/old.txt'' ''e69de29bb2d1d6434b8b29ae775ad8c2e48c5391'',
           blob_entry ''src2/file'' ''e69de29bb2d1d6434b8b29ae775ad8c2e48c5391''] False []) = [''src/old.txt''] \<and>
   startsWith ''src/old.txt'' (sanitizeGitPath ''src'' @ [slash])"
proof -
  let ?cfg = "plain_config\<lparr>targetPath := ''src'', deleteMissing := True\<rparr>"
  let ?tree = "[blob_entry ''src/old.txt'' ''e69de29bb2d1d6434b8b29ae775ad8c2e48c5391'',
           blob_entry ''src2/file'' ''e69de29bb2d1d6434b8b29ae775ad8c2e48c5391'']"
  have dels: "snd (plan ?cfg ?tree False []) = [''src/old.txt'']"
    by (simp add: plan_def plain_config_def targetPrefix_of_def sanitize_src slash_def startsWith_def
        blob_entry_def filesToDelete_of_def Let_def no_analysis_def)
  have h1: "targetPath ?cfg \<noteq> []" by simp
  have h2: "''src/old.txt'' \<in> set (snd (plan ?cfg ?tree False []))"
    unfolding dels by simp
  from delete_scope_ends_at_segment [OF h1 h2]
  have "startsWith ''src/old.txt'' (sanitizeGitPath ''src'' @ [slash])"
    by simp
  with dels show ?thesis by simp
qed

section \<open>Effects of the stages on the state\<close>

lemma addLog_fields [simp]:
  "calls (addLog m ty app) = calls app"
  "syncState (addLog m ty app) = syncState app"
  "stages (addLog m ty app) = stages app"
  "logs (addLog m ty app) = logs app @ [(m, ty)]"
  by (simp_all add: addLog_def)

lemma setSyncState_fields [simp]:
  "calls (setSyncState s app) = calls app"
  "syncState (setSyncState s app) = s"
  "stages (setSyncState s app) = stages app @ [s]"
  "logs (setSyncState s app) = logs app"
  by (simp_all add: setSyncState_def)

lemma call_fields [simp]:
  "calls (call c app) = calls app @ [c]"
  "syncState (call c app) = syncState app"
  "stages (call c app) = stages app"
  "logs (call c app) = logs app"
  by (simp_all add: call_def)

lemma finish_fields [simp]:
  "calls (finish app) = calls app"
  "syncState (finish app) = SUCCESS"
  by (simp_all add: finish_def)

lemma analyzed_fields [simp]:
  "calls (analyzed config tree truncated files app) = calls app"
  "syncState (analyzed config tree truncated files app) = ANALYZING"
  by (simp_all add: analyzed_def Let_def)

lemma scan_result_independent: "fst (scan env b app) = fst (scan env b app')"
  by (simp add: scan_def Let_def split: sum.splits prod.splits)

lemma scan_snapshot: "fst (scan env (defaultBranch config) app) = snapshot env config"
  unfolding snapshot_def by (rule scan_result_independent)

lemma scan_syncState [simp]: "syncState (snd (scan env b app)) = syncState app"
  by (simp add: scan_def Let_def split: sum.splits prod.splits)

lemma scan_writes [simp]:
  "filter (\<lambda>c. \<not> is_read c) (calls (snd (scan env b app))) = filter (\<lambda>c. \<not> is_read c) (calls app)"
  by (simp add: scan_def Let_def split: sum.splits prod.splits)

lemma scan_tree_commit_or_ref [simp]:
  "filter tree_commit_or_ref (calls (snd (scan env b app))) = filter tree_commit_or_ref (calls app)"
  by (simp add: scan_def Let_def split: sum.splits prod.splits)

text \<open>A run that passes the entry guards, in terms of its snapshot.\<close>

lemma startSync_started:
  assumes "isConnected" and "repoDetails \<noteq> None" and "files \<noteq> [] \<or> deleteMissing config"
    and "snapshot env config = (latest, tree, truncated)"
  shows "startSync env isConnected repoDetails config files app =
     (let r = reconcile env config files (defaultBranch config) latest tree truncated
                (snd (scan env (defaultBranch config)
                   (addLog (''Targeting branch: '' @ defaultBranch config) LogInfo (setSyncState SCANNING app))))
      in case snd r of
           None \<Rightarrow> snd (fst r)
         | Some rejected \<Rightarrow>
             (case fst rejected of
                Error m \<Rightarrow>
                  snd (late_uploads env (snd rejected)
                         (fst (fst r), addLog (''Error: '' @ m) LogError (setSyncState ERROR (snd (fst r)))))))"
proof -
  have sc: "fst (scan env (defaultBranch config) a) = (latest, tree, truncated)" for a
    using assms(4) by (simp add: scan_snapshot)
  have guard: "\<not> (files = [] \<and> \<not> deleteMissing config)"
    using assms(3) by blast
  show ?thesis
    unfolding startSync_def Let_def
    by (simp only: sc fst_conv snd_conv assms(1,2) guard not_True_eq_False if_False)
qed

section \<open>Hashes are never empty\<close>

lemma length_be_bytes [simp]: "length (be_bytes k n) = k"
  by (induction k arbitrary: n) simp_all

lemma length_sha1: "length (sha1 m) = 20"
  by (simp add: sha1_def Let_def split: prod.splits)

lemma computeGitBlobSha_nonempty:
  assumes "computeGitBlobSha file = Inr s"
  shows "s \<noteq> []"
proof (cases "arrayBuffer file")
  case (Inl e)
  with assms show ?thesis by (simp add: computeGitBlobSha_def)
next
  case (Inr b)
  then have "file\<lparr>arrayBuffer := Inr b\<rparr> = file" by simp
  with computeGitBlobSha_readable [of b "file"] assms have s: "s = git_blob_id b" by simp
  have "hex_lower bs \<noteq> []" if "length bs = 20" for bs :: "byte list"
    using that by (cases bs) (simp_all add: hex_lower_def)
  then show ?thesis
    unfolding s git_blob_id_def using length_sha1 by blast
qed

section \<open>A run on matching content\<close>

lemma analyze_all_match:
  assumes "\<forall>f \<in> set fs. \<exists>s. computeGitBlobSha (f_file f) = Inr s \<and> m (sanitizeGitPath (pre @ f_path f)) = Some s"
  shows "filesToUpload (analyze m pre fs a) = filesToUpload a"
  using assms
proof (induction fs arbitrary: a)
  case Nil
  then show ?case by simp
next
  case (Cons f fs)
  from Cons.prems obtain s where s: "computeGitBlobSha (f_file f) = Inr s"
    "m (sanitizeGitPath (pre @ f_path f)) = Some s"
    by auto
  have "s \<noteq> []" using computeGitBlobSha_nonempty [OF s(1)] .
  then have "filesToUpload (analyze_file m pre f a) = filesToUpload a"
    using s by (simp add: analyze_file_def Let_def)
  with Cons show ?case by simp
qed

lemma reconcile_up_to_date:
  assumes "filesToUpload (fst (plan config tree truncated files)) = []"
    and "snd (plan config tree truncated files) = []"
  shows "snd (reconcile env config files b latest tree truncated app) = None"
    and "syncState (snd (fst (reconcile env config files b latest tree truncated app))) = SUCCESS"
    and "calls (snd (fst (reconcile env config files b latest tree truncated app))) = calls app"
  using assms by (simp_all add: reconcile_def Let_def)

text \<open>
  Claim C5.  A run is an invocation of \<open>startSync\<close> that passes its entry guards: the
  application is connected, the repository reference parses, and a local file is selected or
  delete-missing is enabled (the button that starts a run is shown only when a file is
  selected).  In a run in which every local file's content address equals the remote blob
  identity at its combined path and the delete set is empty, nothing is to be uploaded, the
  run ends in \<open>SUCCESS\<close>, and it sends no request besides the two reads: no blob, tree,
  commit or ref request.
\<close>

theorem matching_run_is_noop:
  assumes "isConnected" and "repoDetails \<noteq> None" and "files \<noteq> [] \<or> deleteMissing config"
    and snap: "snapshot env config = (latest, tree, truncated)"
    and match: "\<forall>f \<in> set files. \<exists>s. computeGitBlobSha (f_file f) = Inr s \<and>
                  remoteFileMap_of tree (sanitizeGitPath (targetPrefix_of config @ f_path f)) = Some s"
    and nodel: "snd (plan config tree truncated files) = []"
  shows "filesToUpload (fst (plan config tree truncated files)) = [] \<and>
         syncState (startSync env isConnected repoDetails config files app) = SUCCESS \<and>
         filter (\<lambda>c. \<not> is_read c) (calls (startSync env isConnected repoDetails config files app))
           = filter (\<lambda>c. \<not> is_read c) (calls app)"
proof -
  have noup: "filesToUpload (fst (plan config tree truncated files)) = []"
    unfolding plan_analysis using analyze_all_match [OF match] by (simp add: no_analysis_def)
  note rec = reconcile_up_to_date [OF noup nodel]
  show ?thesis
    unfolding startSync_started [OF assms(1-3) snap] Let_def
    by (simp add: rec noup)
qed

theorem matching_run_is_noop_witness:
  "syncState (startSync (remote_with [blob_entry ''a.txt'' ''e69de29bb2d1d6434b8b29ae775ad8c2e48c5391''] False)
      True some_repo plain_config [\<lparr>f_path = ''a.txt'', f_file = readable [] []\<rparr>] idle) = SUCCESS \<and>
   calls (startSync (remote_with [blob_entry ''a.txt'' ''e69de29bb2d1d6434b8b29ae775ad8c2e48c5391''] False)
      True some_repo plain_config [\<lparr>f_path = ''a.txt'', f_file = readable [] []\<rparr>] idle)
     = [GetRef ''main'', GetTreeRecursive ''head'']"
proof -
  let ?tree = "[blob_entry ''a.txt'' ''e69de29bb2d1d6434b8b29ae775ad8c2e48c5391'']"
  let ?env = "remote_with ?tree False"
  let ?files = "[\<lparr>f_path = ''a.txt'', f_file = readable [] []\<rparr>]"
  have h1: "True" ..
  have h2: "some_repo \<noteq> None" by (simp add: some_repo_def)
  have h3: "?files \<noteq> [] \<or> deleteMissing plain_config" by simp
  have br: "defaultBranch plain_config = ''main''"
    by (simp add: defaultBranch_def plain_config_def trim_def is_space_def)
  have h4: "snapshot ?env plain_config = (Some ''head'', ?tree, False)"
    by (simp add: snapshot_def br scan_def getRef_def getTreeRecursive_def request_def remote_with_def Let_def)
  have h5: "\<forall>f \<in> set ?files. \<exists>s. computeGitBlobSha (f_file f) = Inr s \<and>
                  remoteFileMap_of ?tree (sanitizeGitPath (targetPrefix_of plain_config @ f_path f)) = Some s"
    by (simp add: computeGitBlobSha_of_readable git_blob_id_empty remoteFileMap_of_def blob_entry_def
          targetPrefix_of_def plain_config_def sanitize_a_txt)
  have h6: "snd (plan plain_config ?tree False ?files) = []"
    by (simp add: plan_def filesToDelete_of_def plain_config_def Let_def)
  note main = matching_run_is_noop [OF h1 h2 h3 h4 h5 h6, of idle]
  from main have noup: "filesToUpload (fst (plan plain_config ?tree False ?files)) = []" by blast
  have c: "calls (startSync ?env True some_repo plain_config ?files idle) = [GetRef ''main'', GetTreeRecursive ''head'']"
    unfolding startSync_started [OF h1 h2 h3 h4] Let_def
    by (simp add: reconcile_up_to_date [OF noup h6] br)
       (simp add: scan_def getRef_def getTreeRecursive_def request_def remote_with_def idle_def Let_def)
  from main c show ?thesis by simp
qed

section \<open>The upload loop\<close>

lemma upload_one_result: "snd (upload_one env k item st) = None \<longleftrightarrow> \<not> upload_fails env k item"
  by (simp add: upload_one_def upload_fails_def Let_def split: sum.splits)

lemma upload_one_state [simp]:
  "syncState (snd (fst (upload_one env k item st))) = syncState (snd st)"
  "filter tree_commit_or_ref (calls (snd (fst (upload_one env k item st))))
     = filter tree_commit_or_ref (calls (snd st))"
  by (simp_all add: upload_one_def Let_def split: sum.splits)

lemma upload_one_paths:
  "uploadedPaths (fst (fst (upload_one env k item st)))
     = uploadedPaths (fst st) @ (if upload_fails env k item then [] else [remotePath item])"
  "map t_path (newTree (fst (fst (upload_one env k item st))))
     = map t_path (newTree (fst st)) @ (if upload_fails env k item then [] else [remotePath item])"
  by (simp_all add: upload_one_def upload_fails_def Let_def split: sum.splits)

text \<open>The uploads of a chunk, in whatever order they settle, are the items of the chunk.\<close>

lemma map_snd_indexed [simp]: "map snd (indexed k xs) = xs"
  by (induction xs arbitrary: k) simp_all

lemma set_indexed: "set (indexed k xs) = {(k + j, xs ! j) | j. j < length xs}"
proof (induction xs arbitrary: k)
  case Nil
  then show ?case by simp
next
  case (Cons x xs)
  have "{(k + j, (x # xs) ! j) | j. j < Suc (length xs)}
        = insert (k, x) {(Suc k + j, xs ! j) | j. j < length xs}"
    by (auto simp: less_Suc_eq_0_disj)
  then show ?case by (simp add: Cons.IH)
qed

lemma mset_settle_order: "mset (settle_order env i chunk) = mset (indexed i chunk)"
  by (simp add: settle_order_def)

lemma set_settle_order: "set (settle_order env i chunk) = {(i + j, chunk ! j) | j. j < length chunk}"
  by (simp add: settle_order_def set_indexed)

lemma settled_paths: "mset (map (remotePath \<circ> snd) (settle_order env i chunk)) = mset (map remotePath chunk)"
proof -
  have "mset (map (remotePath \<circ> snd) (settle_order env i chunk))
          = image_mset (remotePath \<circ> snd) (mset (settle_order env i chunk))"
    by (rule mset_map)
  also have "\<dots> = image_mset (remotePath \<circ> snd) (mset (indexed i chunk))"
    by (simp only: mset_settle_order)
  also have "\<dots> = mset (map (remotePath \<circ> snd) (indexed i chunk))"
    by (rule mset_map [symmetric])
  also have "\<dots> = mset (map remotePath (map snd (indexed i chunk)))"
    by (simp only: map_map)
  finally show ?thesis by (simp only: map_snd_indexed)
qed

lemma run_uploads_result:
  "snd (run_uploads env ps st) = None \<longleftrightarrow> (\<forall>p \<in> set ps. \<not> upload_fails env (fst p) (snd p))"
proof (induction ps arbitrary: st)
  case Nil
  then show ?case by simp
next
  case (Cons p ps)
  show ?case
    using upload_one_result [of env "fst p" "snd p" st]
    by (cases "snd (upload_one env (fst p) (snd p) st)") (auto simp: Cons.IH)
qed

lemma run_uploads_state [simp]:
  "syncState (snd (fst (run_uploads env ps st))) = syncState (snd st)"
  "filter tree_commit_or_ref (calls (snd (fst (run_uploads env ps st))))
     = filter tree_commit_or_ref (calls (snd st))"
  by (induction ps arbitrary: st) (simp_all split: option.splits)

lemma run_uploads_paths:
  assumes "snd (run_uploads env ps st) = None"
  shows "uploadedPaths (fst (fst (run_uploads env ps st))) = uploadedPaths (fst st) @ map (remotePath \<circ> snd) ps
       \<and> map t_path (newTree (fst (fst (run_uploads env ps st))))
           = map t_path (newTree (fst st)) @ map (remotePath \<circ> snd) ps"
  using assms
proof (induction ps arbitrary: st)
  case Nil
  then show ?case by simp
next
  case (Cons p ps)
  let ?st1 = "fst (upload_one env (fst p) (snd p) st)"
  from Cons.prems have one: "snd (upload_one env (fst p) (snd p) st) = None"
    by (auto split: option.splits)
  with Cons.prems have rest: "snd (run_uploads env ps ?st1) = None"
    by simp
  have ok: "\<not> upload_fails env (fst p) (snd p)"
    using one by (simp add: upload_one_result)
  show ?case
    using Cons.IH [OF rest] one ok by (simp add: upload_one_paths)
qed

lemma late_uploads_state [simp]:
  "syncState (snd (late_uploads env ps st)) = syncState (snd st)"
  "filter tree_commit_or_ref (calls (snd (late_uploads env ps st)))
     = filter tree_commit_or_ref (calls (snd st))"
  by (induction ps arbitrary: st) simp_all

lemma upload_chunk_result:
  "snd (upload_chunk env k chunk st) = None \<longleftrightarrow> (\<forall>j < length chunk. \<not> upload_fails env (k + j) (chunk ! j))"
  unfolding upload_chunk_def run_uploads_result set_settle_order by auto

lemma upload_chunk_state [simp]:
  "syncState (snd (fst (upload_chunk env k chunk st))) = syncState (snd st)"
  "filter tree_commit_or_ref (calls (snd (fst (upload_chunk env k chunk st))))
     = filter tree_commit_or_ref (calls (snd st))"
  by (simp_all add: upload_chunk_def)

text \<open>
  After a chunk whose uploads all succeeded: one new tree entry and one uploaded path for
  each item of the chunk, in the order in which the uploads settled.
\<close>

lemma upload_chunk_paths:
  assumes "snd (upload_chunk env k chunk st) = None"
  shows "uploadedPaths (fst (fst (upload_chunk env k chunk st)))
           = uploadedPaths (fst st) @ map remotePath (map snd (settle_order env k chunk))"
    and "map t_path (newTree (fst (fst (upload_chunk env k chunk st))))
           = map t_path (newTree (fst st)) @ map remotePath (map snd (settle_order env k chunk))"
  using run_uploads_paths [OF assms [unfolded upload_chunk_def]]
  unfolding upload_chunk_def by simp_all

lemma upload_loop_state:
  "syncState (snd (fst (upload_loop env ups i st))) = syncState (snd st) \<and>
   filter tree_commit_or_ref (calls (snd (fst (upload_loop env ups i st))))
     = filter tree_commit_or_ref (calls (snd st))"
proof (induction env ups i st rule: upload_loop.induct)
  case (1 env ups i st)
  show ?case
    by (subst (1 2) upload_loop.simps) (auto simp: Let_def 1 split: option.splits)
qed

lemma upload_loop_result:
  "snd (upload_loop env ups i st) = None \<longleftrightarrow> (\<forall>j. i \<le> j \<and> j < length ups \<longrightarrow> \<not> upload_fails env j (ups ! j))"
proof (induction env ups i st rule: upload_loop.induct)
  case (1 env ups i st)
  let ?chunk = "take CHUNK_SIZE (drop i ups)"
  let ?r = "upload_chunk env i ?chunk st"
  show ?case
  proof (cases "i < length ups")
    case False
    then show ?thesis by (subst upload_loop.simps) auto
  next
    case True
    have chunk: "snd ?r = None \<longleftrightarrow> (\<forall>j. i \<le> j \<and> j < length ups \<and> j < i + CHUNK_SIZE \<longrightarrow> \<not> upload_fails env j (ups ! j))"
    proof -
      have "(\<forall>j < length ?chunk. \<not> upload_fails env (i + j) (?chunk ! j))
            \<longleftrightarrow> (\<forall>j. i \<le> j \<and> j < length ups \<and> j < i + CHUNK_SIZE \<longrightarrow> \<not> upload_fails env j (ups ! j))"
      proof (intro iffI allI impI)
        fix j assume a: "\<forall>j < length ?chunk. \<not> upload_fails env (i + j) (?chunk ! j)"
          and j: "i \<le> j \<and> j < length ups \<and> j < i + CHUNK_SIZE"
        then have "j - i < length ?chunk" by auto
        with a have "\<not> upload_fails env (i + (j - i)) (?chunk ! (j - i))" by blast
        moreover have lt: "j - i < CHUNK_SIZE" and eq: "i + (j - i) = j" and le: "i \<le> length ups"
          using j by arith+
        moreover have "?chunk ! (j - i) = ups ! (i + (j - i))"
          using lt le by (simp add: nth_drop)
        ultimately show "\<not> upload_fails env j (ups ! j)" by simp
      next
        fix j assume a: "\<forall>j. i \<le> j \<and> j < length ups \<and> j < i + CHUNK_SIZE \<longrightarrow> \<not> upload_fails env j (ups ! j)"
          and j: "j < length ?chunk"
        then have "i \<le> i + j \<and> i + j < length ups \<and> i + j < i + CHUNK_SIZE" by auto
        with a have "\<not> upload_fails env (i + j) (ups ! (i + j))" by blast
        moreover have "?chunk ! j = ups ! (i + j)"
          using j True by (simp add: nth_drop)
        ultimately show "\<not> upload_fails env (i + j) (?chunk ! j)" by simp
      qed
      then show ?thesis by (simp only: upload_chunk_result)
    qed
    show ?thesis
    proof (cases "snd ?r")
      case None
      have "snd (upload_loop env ups i st) = snd (upload_loop env ups (i + CHUNK_SIZE) (fst ?r))"
        by (subst upload_loop.simps) (simp add: True None Let_def)
      also have "\<dots> = None \<longleftrightarrow> (\<forall>j. i + CHUNK_SIZE \<le> j \<and> j < length ups \<longrightarrow> \<not> upload_fails env j (ups ! j))"
        using "1.IH" [OF True refl None] .
      finally have rest: "snd (upload_loop env ups i st) = None \<longleftrightarrow>
          (\<forall>j. i + CHUNK_SIZE \<le> j \<and> j < length ups \<longrightarrow> \<not> upload_fails env j (ups ! j))" .
      from chunk None have first:
        "\<forall>j. i \<le> j \<and> j < length ups \<and> j < i + CHUNK_SIZE \<longrightarrow> \<not> upload_fails env j (ups ! j)"
        by simp
      show ?thesis
        unfolding rest
      proof (intro iffI allI impI)
        fix j assume a: "\<forall>j. i + CHUNK_SIZE \<le> j \<and> j < length ups \<longrightarrow> \<not> upload_fails env j (ups ! j)"
          and j: "i \<le> j \<and> j < length ups"
        show "\<not> upload_fails env j (ups ! j)"
        proof (cases "j < i + CHUNK_SIZE")
          case True
          with first j show ?thesis by blast
        next
          case False
          then have "i + CHUNK_SIZE \<le> j" by simp
          with a j show ?thesis by blast
        qed
      next
        fix j assume a: "\<forall>j. i \<le> j \<and> j < length ups \<longrightarrow> \<not> upload_fails env j (ups ! j)"
          and j: "i + CHUNK_SIZE \<le> j \<and> j < length ups"
        then have "i \<le> j \<and> j < length ups" by simp
        with a show "\<not> upload_fails env j (ups ! j)" by blast
      qed
    next
      case (Some e)
      have "snd (upload_loop env ups i st) = Some e"
        by (subst upload_loop.simps) (simp add: True Some Let_def)
      then show ?thesis
        using chunk Some by auto
    qed
  qed
qed

text \<open>
  After a loop in which every upload succeeded: the new tree entries and the uploaded paths
  go together, one for each item, the items of each chunk in the order in which they settled.
\<close>

lemma mset_settled: "mset (settled env ups i) = mset (drop i ups)"
proof (induction env ups i rule: settled.induct)
  case (1 env ups i)
  let ?chunk = "take CHUNK_SIZE (drop i ups)"
  show ?case
  proof (cases "i < length ups")
    case False
    then show ?thesis by (subst settled.simps) simp
  next
    case True
    have "mset (map snd (settle_order env i ?chunk)) = image_mset snd (mset (settle_order env i ?chunk))"
      by (rule mset_map)
    also have "\<dots> = image_mset snd (mset (indexed i ?chunk))"
      by (simp only: mset_settle_order)
    also have "\<dots> = mset (map snd (indexed i ?chunk))"
      by (rule mset_map [symmetric])
    finally have chunk: "mset (map snd (settle_order env i ?chunk)) = mset ?chunk"
      by (simp only: map_snd_indexed)
    have split: "?chunk @ drop (i + CHUNK_SIZE) ups = drop i ups"
      by (metis add.commute append_take_drop_id drop_drop)
    have unfold: "settled env ups i = map snd (settle_order env i ?chunk) @ settled env ups (i + CHUNK_SIZE)"
      by (subst settled.simps) (simp add: True)
    have "mset (settled env ups i) = mset ?chunk + mset (drop (i + CHUNK_SIZE) ups)"
      by (simp only: unfold mset_append chunk "1.IH" [OF True])
    also have "\<dots> = mset (?chunk @ drop (i + CHUNK_SIZE) ups)"
      by simp
    finally show ?thesis
      by (simp only: split)
  qed
qed

text \<open>
  After a loop whose uploads all succeeded: one new tree entry and one uploaded path for each
  item of the upload list, in the order in which the uploads settled.
\<close>

lemma upload_loop_paths:
  assumes "snd (upload_loop env ups i st) = None"
  shows "uploadedPaths (fst (fst (upload_loop env ups i st)))
           = uploadedPaths (fst st) @ map remotePath (settled env ups i)
       \<and> map t_path (newTree (fst (fst (upload_loop env ups i st))))
           = map t_path (newTree (fst st)) @ map remotePath (settled env ups i)"
  using assms
proof (induction env ups i st rule: upload_loop.induct)
  case (1 env ups i st)
  let ?chunk = "take CHUNK_SIZE (drop i ups)"
  let ?r = "upload_chunk env i ?chunk st"
  show ?case
  proof (cases "i < length ups")
    case False
    then show ?thesis by (subst (1 2) upload_loop.simps, subst (1 2) settled.simps) simp
  next
    case True
    have unfold: "upload_loop env ups i st =
        (case snd ?r of Some e \<Rightarrow> ?r | None \<Rightarrow> upload_loop env ups (i + CHUNK_SIZE) (fst ?r))"
      by (subst upload_loop.simps) (simp add: True Let_def)
    have order: "settled env ups i = map snd (settle_order env i ?chunk) @ settled env ups (i + CHUNK_SIZE)"
      by (subst settled.simps) (simp add: True)
    from "1.prems" have ok: "snd ?r = None"
      unfolding unfold by (auto split: option.splits)
    then have next_ok: "snd (upload_loop env ups (i + CHUNK_SIZE) (fst ?r)) = None"
      using "1.prems" unfolding unfold by simp
    note chunk = upload_chunk_paths [OF ok]
    note rest = "1.IH" [OF True refl ok next_ok]
    show ?thesis
      unfolding unfold order by (simp add: ok chunk rest)
  qed
qed

text \<open>A failing item cuts the loop off: what lies after its chunk plays no part.\<close>

lemma upload_loop_cut:
  assumes "i \<le> k" and "k < length ups" and "upload_fails env k (ups ! k)"
    and "n = i + CHUNK_SIZE * q" and "k < n"
  shows "upload_loop env ups i st = upload_loop env (take n ups) i st"
  using assms
proof (induction env ups i st arbitrary: q rule: upload_loop.induct)
  case (1 env ups i st)
  let ?chunk = "take CHUNK_SIZE (drop i ups)"
  let ?r = "upload_chunk env i ?chunk st"
  have i_lt: "i < length ups" "i < length (take n ups)"
    using "1.prems"(1,2,5) by simp_all
  have q_pos: "q \<noteq> 0"
    using "1.prems"(1,4,5) by (cases q) auto
  then have "i + CHUNK_SIZE \<le> n"
    using "1.prems"(4) by (cases q) simp_all
  then have same: "take CHUNK_SIZE (drop i (take n ups)) = ?chunk"
    by (simp add: drop_take min_def)
  have lhs: "upload_loop env ups i st =
        (case snd ?r of Some e \<Rightarrow> ?r | None \<Rightarrow> upload_loop env ups (i + CHUNK_SIZE) (fst ?r))"
    by (subst upload_loop.simps) (simp add: i_lt Let_def)
  have rhs: "upload_loop env (take n ups) i st =
        (case snd ?r of Some e \<Rightarrow> ?r | None \<Rightarrow> upload_loop env (take n ups) (i + CHUNK_SIZE) (fst ?r))"
    by (subst upload_loop.simps) (simp only: i_lt same Let_def if_True)
  show ?case
  proof (cases "snd ?r")
    case (Some e)
    then show ?thesis by (simp add: lhs rhs)
  next
    case None
    have "\<not> (k < i + CHUNK_SIZE)"
    proof
      assume lt: "k < i + CHUNK_SIZE"
      from None have all: "\<forall>j < length ?chunk. \<not> upload_fails env (i + j) (?chunk ! j)"
        by (simp only: upload_chunk_result)
      have "k - i < length ups - i" and "k - i < CHUNK_SIZE"
        using lt "1.prems"(1,2) by arith+
      then have "k - i < length ?chunk"
        by simp
      with all have "\<not> upload_fails env (i + (k - i)) (?chunk ! (k - i))"
        by blast
      moreover have "k - i < CHUNK_SIZE" and "i + (k - i) = k"
        using lt "1.prems"(1) by arith+
      moreover have "?chunk ! (k - i) = ups ! (i + (k - i))"
        using \<open>k - i < CHUNK_SIZE\<close> i_lt(1) by (simp add: nth_drop)
      ultimately show False
        using "1.prems"(3) by simp
    qed
    then have k: "i + CHUNK_SIZE \<le> k" by simp
    obtain q' where q': "q = Suc q'" using q_pos by (cases q) auto
    have n: "n = (i + CHUNK_SIZE) + CHUNK_SIZE * q'"
      using "1.prems"(4) q' by simp
    from "1.IH" [OF i_lt(1) refl None k "1.prems"(2,3) n "1.prems"(5)]
    show ?thesis by (simp add: lhs rhs None)
  qed
qed

lemma upload_loop_batches: "upload_loop env ups i st = upload_batches env i (batches ups i) st"
proof (induction env ups i st rule: upload_loop.induct)
  case (1 env ups i st)
  show ?case
  proof (cases "i < length ups")
    case False
    then show ?thesis
      by (subst upload_loop.simps, subst batches.simps) simp
  next
    case True
    show ?thesis
    proof (cases "snd (upload_chunk env i (take CHUNK_SIZE (drop i ups)) st)")
      case None
      with "1.IH" [OF True refl None] True show ?thesis
        by (subst upload_loop.simps, subst batches.simps) (simp add: Let_def)
    next
      case (Some e)
      with True show ?thesis
        by (subst upload_loop.simps, subst batches.simps) (simp add: Let_def)
    qed
  qed
qed

lemma batches_of_twelve:
  "batches [x1, x2, x3, x4, x5, x6, x7, x8, x9, x10, x11, x12] 0
     = [[x1, x2, x3, x4, x5], [x6, x7, x8, x9, x10], [x11, x12]]"
  apply (subst batches.simps)
  apply (subst batches.simps)
  apply (subst batches.simps)
  apply (subst batches.simps)
  apply (simp add: CHUNK_SIZE_def)
  done

section \<open>A failed upload\<close>

lemma plan_no_files: "filesToUpload (fst (plan config tree truncated [])) = []"
  by (simp add: plan_analysis no_analysis_def)

lemma reconcile_uploading:
  assumes "filesToUpload (fst (plan config tree truncated files)) \<noteq> []
           \<or> snd (plan config tree truncated files) \<noteq> []"
  shows "reconcile env config files b latest tree truncated app =
     (let a = fst (plan config tree truncated files);
          r = upload_loop env (filesToUpload a) 0
                (no_uploads, setSyncState UPLOADING (analyzed config tree truncated files app))
      in case snd r of
           Some rejected \<Rightarrow> r
         | None \<Rightarrow>
             (let c = commit_stage env b latest (commit_message env config a (snd (plan config tree truncated files)))
                        (finalTree_of config (targetPrefix_of config) (processedRemotePaths a)
                           (snd (plan config tree truncated files)) (fst (fst r)) tree)
                        (setSyncState COMMITTING (snd (fst r)))
              in ((fst (fst r), fst c), map_option (\<lambda>e. (e, [])) (snd c))))"
  using assms by (auto simp: reconcile_def Let_def)

lemma reconcile_upload_failure:
  assumes "k < length (filesToUpload (fst (plan config tree truncated files)))"
    and "upload_fails env k (filesToUpload (fst (plan config tree truncated files)) ! k)"
  shows "snd (reconcile env config files b latest tree truncated app) \<noteq> None"
    and "filter tree_commit_or_ref (calls (snd (fst (reconcile env config files b latest tree truncated app))))
           = filter tree_commit_or_ref (calls app)"
proof -
  let ?ups = "filesToUpload (fst (plan config tree truncated files))"
  let ?r = "upload_loop env ?ups 0 (no_uploads, setSyncState UPLOADING (analyzed config tree truncated files app))"
  have ne: "?ups \<noteq> [] \<or> snd (plan config tree truncated files) \<noteq> []"
    using assms(1) by auto
  have "\<not> (\<forall>j. 0 \<le> j \<and> j < length ?ups \<longrightarrow> \<not> upload_fails env j (?ups ! j))"
    using assms by blast
  then have "snd ?r \<noteq> None"
    by (simp only: upload_loop_result not_False_eq_True)
  then obtain e where e: "snd ?r = Some e" by (cases "snd ?r") auto
  show "snd (reconcile env config files b latest tree truncated app) \<noteq> None"
    by (simp add: reconcile_uploading [OF ne] Let_def e)
  show "filter tree_commit_or_ref (calls (snd (fst (reconcile env config files b latest tree truncated app))))
           = filter tree_commit_or_ref (calls app)"
    by (simp add: reconcile_uploading [OF ne] Let_def e upload_loop_state)
qed

text \<open>
  Claim C3.  In a run in which the upload of some item of the upload list fails: the run ends
  in \<open>ERROR\<close>; it sends no tree, commit or ref request, so the branch is not touched; the
  upload loop runs the chunks of the list one after the other and stops at the first that
  rejects, so that everything after the chunk of the failing item plays no part; the chunk
  size is 5, and a list of twelve is cut into chunks of 5, 5 and 2.
\<close>

theorem failed_upload_aborts_run:
  assumes "isConnected" and "repoDetails \<noteq> None"
    and snap: "snapshot env config = (latest, tree, truncated)"
    and ups: "ups = filesToUpload (fst (plan config tree truncated files))"
    and k: "k < length ups" and fails: "upload_fails env k (ups ! k)"
  shows "syncState (startSync env isConnected repoDetails config files app) = ERROR \<and>
         filter tree_commit_or_ref (calls (startSync env isConnected repoDetails config files app))
           = filter tree_commit_or_ref (calls app) \<and>
         upload_loop env ups 0 st = upload_batches env 0 (batches ups 0) st \<and>
         upload_loop env ups 0 st = upload_loop env (take (CHUNK_SIZE * (k div CHUNK_SIZE + 1)) ups) 0 st \<and>
         CHUNK_SIZE = 5 \<and>
         batches [x1, x2, x3, x4, x5, x6, x7, x8, x9, x10, x11, x12] 0
           = [[x1, x2, x3, x4, x5], [x6, x7, x8, x9, x10], [x11, x12]]"
proof -
  have "files \<noteq> []"
    using k ups plan_no_files by auto
  then have guard: "files \<noteq> [] \<or> deleteMissing config" ..
  let ?app1 = "snd (scan env (defaultBranch config)
                  (addLog (''Targeting branch: '' @ defaultBranch config) LogInfo (setSyncState SCANNING app)))"
  note rf = reconcile_upload_failure [OF k [unfolded ups] fails [unfolded ups]]
  have "snd (reconcile env config files (defaultBranch config) latest tree truncated ?app1) \<noteq> None"
    by (rule rf(1))
  then obtain e where e: "snd (reconcile env config files (defaultBranch config) latest tree truncated ?app1) = Some e"
    by (cases "snd (reconcile env config files (defaultBranch config) latest tree truncated ?app1)") auto
  have run: "syncState (startSync env isConnected repoDetails config files app) = ERROR \<and>
         filter tree_commit_or_ref (calls (startSync env isConnected repoDetails config files app))
           = filter tree_commit_or_ref (calls app)"
    unfolding startSync_started [OF assms(1,2) guard snap] Let_def e
    using rf(2) by (cases e, cases "fst e") simp
  have "k < CHUNK_SIZE * (k div CHUNK_SIZE + 1)"
    unfolding CHUNK_SIZE_def by presburger
  then have cut: "upload_loop env ups 0 st = upload_loop env (take (CHUNK_SIZE * (k div CHUNK_SIZE + 1)) ups) 0 st"
    using upload_loop_cut [of 0 k ups env "CHUNK_SIZE * (k div CHUNK_SIZE + 1)" "k div CHUNK_SIZE + 1" st] k fails
    by simp
  show ?thesis
    using run cut upload_loop_batches [of env ups 0 st] batches_of_twelve [of x1 x2 x3 x4 x5 x6 x7 x8 x9 x10 x11 x12]
    by (simp add: CHUNK_SIZE_def)
qed

lemma sanitize_fxx: "sanitizeGitPath [CHR ''f'', c, d] = [CHR ''f'', c, d]"
  if "c \<noteq> CHR 0x2F" "c \<noteq> CHR 0x5C" "d \<noteq> CHR 0x2F" "d \<noteq> CHR 0x5C" "c \<noteq> CHR ''.''"
  using that by (simp add: sanitizeGitPath_def slash_def backslash_def)

lemma main_branch: "defaultBranch plain_config = ''main''"
  by (simp add: defaultBranch_def plain_config_def trim_def is_space_def)

lemma snapshot_remote_with:
  "snapshot ((remote_with tree truncated)\<lparr>blob_response := br\<rparr>) config = (Some ''head'', tree, truncated)"
  by (simp add: snapshot_def scan_def getRef_def getTreeRecursive_def request_def remote_with_def Let_def)

lemma scan_remote_with:
  "calls (snd (scan ((remote_with tree truncated)\<lparr>blob_response := br\<rparr>) b app))
     = calls app @ [GetRef b, GetTreeRecursive ''head'']"
  by (simp add: scan_def getRef_def getTreeRecursive_def request_def remote_with_def Let_def)

lemma twelve_uploads:
  "filesToUpload (fst (plan plain_config [] False twelve_files)) =
     map (\<lambda>f. \<lparr>u_file = f, remotePath = f_path f, isNew = True\<rparr>) twelve_files"
  by (simp add: plan_analysis twelve_files_def new_file_def analyze_file_def remoteFileMap_of_def
        targetPrefix_of_def plain_config_def sanitize_fxx no_analysis_def to_upload_def Let_def)

theorem failed_upload_aborts_run_witness:
  "syncState (startSync eighth_upload_refused True some_repo plain_config twelve_files idle) = ERROR \<and>
   calls (startSync eighth_upload_refused True some_repo plain_config twelve_files idle) =
     [GetRef ''main'', GetTreeRecursive ''head'',
      CreateBlob 0 ''f00'', CreateBlob 1 ''f01'', CreateBlob 2 ''f02'', CreateBlob 3 ''f03'', CreateBlob 4 ''f04'',
      CreateBlob 5 ''f05'', CreateBlob 6 ''f06'', CreateBlob 7 ''f07'', CreateBlob 8 ''f08'', CreateBlob 9 ''f09'']"
proof -
  let ?env = eighth_upload_refused
  let ?ups = "map (\<lambda>f. \<lparr>u_file = f, remotePath = f_path f, isNew = True\<rparr>) twelve_files"
  have h1: True ..
  have h2: "some_repo \<noteq> None" by (simp add: some_repo_def)
  have snap: "snapshot ?env plain_config = (Some ''head'', [], False)"
    unfolding eighth_upload_refused_def by (rule snapshot_remote_with)
  have ups: "?ups = filesToUpload (fst (plan plain_config [] False twelve_files))"
    by (simp only: twelve_uploads)
  have k: "7 < length ?ups" by (simp add: twelve_files_def)
  have fails: "upload_fails ?env 7 (?ups ! 7)"
    by (simp add: twelve_files_def new_file_def readable_def upload_fails_def createBlob_def request_def
          eighth_upload_refused_def remote_with_def)
  note main = failed_upload_aborts_run [OF h1 h2 snap ups k fails]
  have guard: "twelve_files \<noteq> [] \<or> deleteMissing plain_config" by (simp add: twelve_files_def)
  have ne: "filesToUpload (fst (plan plain_config [] False twelve_files)) \<noteq> []
           \<or> snd (plan plain_config [] False twelve_files) \<noteq> []"
    unfolding twelve_uploads by (simp add: twelve_files_def)
  have b: "batches ?ups 0 = [take 5 ?ups, take 5 (drop 5 ?ups), drop 10 ?ups]"
    unfolding twelve_files_def
    apply (subst batches.simps)
    apply (subst batches.simps)
    apply (subst batches.simps)
    apply (subst batches.simps)
    apply (simp add: CHUNK_SIZE_def)
    done
  have c: "calls (startSync ?env True some_repo plain_config twelve_files idle) =
     [GetRef ''main'', GetTreeRecursive ''head'',
      CreateBlob 0 ''f00'', CreateBlob 1 ''f01'', CreateBlob 2 ''f02'', CreateBlob 3 ''f03'', CreateBlob 4 ''f04'',
      CreateBlob 5 ''f05'', CreateBlob 6 ''f06'', CreateBlob 7 ''f07'', CreateBlob 8 ''f08'', CreateBlob 9 ''f09'']"
    unfolding startSync_started [OF h1 h2 guard snap] reconcile_uploading [OF ne] twelve_uploads
      upload_loop_batches b Let_def
    by (simp add: twelve_files_def new_file_def readable_def upload_chunk_def settle_order_def
          upload_one_def createBlob_def request_def
          eighth_upload_refused_def [unfolded remote_with_def] scan_def getRef_def getTreeRecursive_def
          main_branch idle_def CHUNK_SIZE_def Let_def)
  from main [where app = idle]
  have "syncState (startSync ?env True some_repo plain_config twelve_files idle) = ERROR"
    by (rule conjunct1)
  with c show ?thesis by simp
qed

section \<open>Tree assembly\<close>

lemma trees_preserved:
  assumes "filter tree_commit_or_ref cs = filter tree_commit_or_ref cs'"
  shows "CreateTree ft \<in> set cs \<longleftrightarrow> CreateTree ft \<in> set cs'"
proof -
  have "CreateTree ft \<in> set (filter tree_commit_or_ref cs)
        \<longleftrightarrow> CreateTree ft \<in> set (filter tree_commit_or_ref cs')"
    by (simp only: assms)
  then show ?thesis by simp
qed

lemma commit_stage_trees:
  "CreateTree ft \<in> set (calls (fst (commit_stage env b latest msg ft0 app)))
     \<longleftrightarrow> ft = ft0 \<or> CreateTree ft \<in> set (calls app)"
  by (auto simp: commit_stage_def Let_def split: sum.splits)

lemma finalTree_of_distinct:
  assumes new: "distinct (map t_path (newTree up))"
    and same: "set (map t_path (newTree up)) = set (uploadedPaths up)"
    and old: "distinct (map t_path (filter (\<lambda>t. t_type t = ''blob'') tree))"
  shows "distinct (map t_path (finalTree_of config pre processed dels up tree))"
proof -
  let ?keep = "\<lambda>t. \<not> t_path t \<in> set (uploadedPaths up) \<and> \<not> t_path t \<in> set dels
                 \<and> \<not> (pre \<noteq> [] \<and> startsWith (t_path t) pre \<and> t_path t \<notin> processed \<and> deleteMissing config)"
  have kept: "filter (\<lambda>t. \<not> t_type t \<noteq> ''blob'' \<and> ?keep t) tree
                = filter ?keep (filter (\<lambda>t. t_type t = ''blob'') tree)"
    by (simp add: conj_commute)
  have "distinct (map t_path (filter ?keep (filter (\<lambda>t. t_type t = ''blob'') tree)))"
    using old by (rule distinct_map_filter)
  moreover have "set (map t_path (newTree up)) \<inter> set (map t_path (filter ?keep (filter (\<lambda>t. t_type t = ''blob'') tree))) = {}"
    unfolding same by auto
  ultimately show ?thesis
    unfolding finalTree_of_def kept using new by simp
qed

lemma finalTree_of_split:
  "\<exists>new old. finalTree_of config pre processed dels up tree = new @ old \<and> new = newTree up
      \<and> set old \<subseteq> set (filter (\<lambda>t. t_type t = ''blob'') tree)
      \<and> set (map t_path old) \<inter> set (uploadedPaths up) = {}"
  by (auto simp: finalTree_of_def)

lemma analyzed_uploads_distinct:
  assumes "distinct (map (\<lambda>f. sanitizeGitPath (targetPrefix_of config @ f_path f)) files)"
  shows "distinct (map remotePath (filesToUpload (fst (plan config tree truncated files))))"
proof -
  have "distinct (filesSkipped (fst (plan config tree truncated files))
                  @ map remotePath (filesToUpload (fst (plan config tree truncated files))))"
    unfolding plan_analysis by (rule analyze_distinct [OF assms]) (simp_all add: no_analysis_def)
  then show ?thesis by simp
qed

lemma scan_calls_trees:
  "CreateTree ft \<in> set (calls (snd (scan env b app))) \<longleftrightarrow> CreateTree ft \<in> set (calls app)"
  by (rule trees_preserved) simp

text \<open>
  The tree request of a run, if it makes one, carries the assembled final tree, whose new
  entries are those of the uploads in the order in which they settled.
\<close>

lemma run_tree_is_final_tree:
  assumes snap: "snapshot env config = (latest, tree, truncated)"
    and made: "CreateTree ft \<in> set (calls (startSync env isConnected repoDetails config files app))"
    and fresh: "CreateTree ft \<notin> set (calls app)"
  shows "\<exists>up. ft = finalTree_of config (targetPrefix_of config)
                    (processedRemotePaths (fst (plan config tree truncated files)))
                    (snd (plan config tree truncated files)) up tree
              \<and> uploadedPaths up
                  = map remotePath (settled env (filesToUpload (fst (plan config tree truncated files))) 0)
              \<and> map t_path (newTree up)
                  = map remotePath (settled env (filesToUpload (fst (plan config tree truncated files))) 0)"
proof -
  let ?a = "fst (plan config tree truncated files)"
  let ?dels = "snd (plan config tree truncated files)"
  have started: "isConnected" "repoDetails \<noteq> None" "files \<noteq> [] \<or> deleteMissing config"
    using made fresh by (auto simp: startSync_def split: if_splits)
  let ?app1 = "snd (scan env (defaultBranch config)
                  (addLog (''Targeting branch: '' @ defaultBranch config) LogInfo (setSyncState SCANNING app)))"
  let ?rec = "reconcile env config files (defaultBranch config) latest tree truncated ?app1"
  have app1: "CreateTree ft \<notin> set (calls ?app1)"
    using fresh by (simp add: scan_calls_trees)
  have "filter tree_commit_or_ref (calls (startSync env isConnected repoDetails config files app))
          = filter tree_commit_or_ref (calls (snd (fst ?rec)))"
    unfolding startSync_started [OF started snap] Let_def
    by (auto split: option.splits error.splits)
  from trees_preserved [OF this] made
  have in_rec: "CreateTree ft \<in> set (calls (snd (fst ?rec)))" by simp
  have ne: "filesToUpload ?a \<noteq> [] \<or> ?dels \<noteq> []"
  proof (rule ccontr)
    assume "\<not> ?thesis"
    then have "calls (snd (fst ?rec)) = calls ?app1"
      by (simp add: reconcile_up_to_date)
    with in_rec app1 show False by simp
  qed
  let ?st = "(no_uploads, setSyncState UPLOADING (analyzed config tree truncated files ?app1))"
  let ?r = "upload_loop env (filesToUpload ?a) 0 ?st"
  have up_calls: "CreateTree ft \<notin> set (calls (snd (fst ?r)))"
    using app1 trees_preserved [of "calls (snd (fst ?r))" "calls ?app1" ft]
    by (simp add: upload_loop_state)
  show ?thesis
  proof (cases "snd ?r")
    case (Some e)
    then have "calls (snd (fst ?rec)) = calls (snd (fst ?r))"
      unfolding reconcile_uploading [OF ne] Let_def by simp
    with in_rec up_calls show ?thesis by simp
  next
    case None
    let ?ft0 = "finalTree_of config (targetPrefix_of config) (processedRemotePaths ?a) ?dels (fst (fst ?r)) tree"
    have "snd (fst ?rec) = fst (commit_stage env (defaultBranch config) latest (commit_message env config ?a ?dels) ?ft0
                        (setSyncState COMMITTING (snd (fst ?r))))"
      unfolding reconcile_uploading [OF ne] Let_def None by simp
    with in_rec up_calls have ft: "ft = ?ft0"
      by (simp add: commit_stage_trees)
    from upload_loop_paths [OF None]
    have "uploadedPaths (fst (fst ?r)) = map remotePath (settled env (filesToUpload ?a) 0)"
      and "map t_path (newTree (fst (fst ?r))) = map remotePath (settled env (filesToUpload ?a) 0)"
      by (simp_all add: no_uploads_def)
    with ft show ?thesis by blast
  qed
qed

text \<open>
  Claim C8, as amended.  In a run that reaches tree assembly, the final tree sent to the
  remote is the newly created entries followed by original remote blob entries.  The new
  entries are one for each item of the upload list, in the order in which the uploads
  settled: chunk after chunk, and within a chunk in the order in which the remote answered
  (so the upload list in some order, not necessarily its own).  No original entry that is
  kept has the path of an upload: an uploaded path supersedes the original entry.  When the
  combined paths of the local files are pairwise distinct and the remote listing has no blob
  path twice, no two entries of the final tree share a path.
\<close>

theorem final_tree_has_one_entry_per_path:
  assumes snap: "snapshot env config = (latest, tree, truncated)"
    and ups: "ups = filesToUpload (fst (plan config tree truncated files))"
    and made: "CreateTree ft \<in> set (calls (startSync env isConnected repoDetails config files app))"
    and fresh: "CreateTree ft \<notin> set (calls app)"
  shows "(\<exists>new old. ft = new @ old
            \<and> map t_path new = map remotePath (settled env ups 0)
            \<and> mset (settled env ups 0) = mset ups
            \<and> set old \<subseteq> set (filter (\<lambda>t. t_type t = ''blob'') tree)
            \<and> set (map t_path old) \<inter> set (map remotePath ups) = {}) \<and>
         (distinct (map (\<lambda>f. sanitizeGitPath (targetPrefix_of config @ f_path f)) files)
            \<and> distinct (map t_path (filter (\<lambda>t. t_type t = ''blob'') tree))
          \<longrightarrow> distinct (map t_path ft))"
proof -
  from run_tree_is_final_tree [OF snap made fresh]
  obtain up where up: "ft = finalTree_of config (targetPrefix_of config)
                    (processedRemotePaths (fst (plan config tree truncated files)))
                    (snd (plan config tree truncated files)) up tree"
      "uploadedPaths up = map remotePath (settled env ups 0)"
      "map t_path (newTree up) = map remotePath (settled env ups 0)"
    unfolding ups by blast
  have all: "mset (settled env ups 0) = mset ups"
    by (simp add: mset_settled)
  have "mset (map remotePath (settled env ups 0)) = image_mset remotePath (mset (settled env ups 0))"
    by (rule mset_map)
  also have "\<dots> = image_mset remotePath (mset ups)"
    by (simp only: all)
  also have "\<dots> = mset (map remotePath ups)"
    by (rule mset_map [symmetric])
  finally have paths: "mset (map remotePath (settled env ups 0)) = mset (map remotePath ups)" .
  have same_set: "set (map remotePath (settled env ups 0)) = set (map remotePath ups)"
    using paths by (rule mset_eq_setD)
  from finalTree_of_split [of config "targetPrefix_of config"
        "processedRemotePaths (fst (plan config tree truncated files))"
        "snd (plan config tree truncated files)" up tree]
  obtain new old where parts: "ft = new @ old" "new = newTree up"
      "set old \<subseteq> set (filter (\<lambda>t. t_type t = ''blob'') tree)"
      "set (map t_path old) \<inter> set (uploadedPaths up) = {}"
    unfolding up(1) by blast
  have "set (map t_path old) \<inter> set (map remotePath ups) = {}"
    using parts(4) unfolding up(2) same_set .
  with parts(1-3) up(3) all
  have shape: "\<exists>new old. ft = new @ old
            \<and> map t_path new = map remotePath (settled env ups 0)
            \<and> mset (settled env ups 0) = mset ups
            \<and> set old \<subseteq> set (filter (\<lambda>t. t_type t = ''blob'') tree)
            \<and> set (map t_path old) \<inter> set (map remotePath ups) = {}"
    by blast
  have one: "distinct (map t_path ft)"
    if local: "distinct (map (\<lambda>f. sanitizeGitPath (targetPrefix_of config @ f_path f)) files)"
      and remote: "distinct (map t_path (filter (\<lambda>t. t_type t = ''blob'') tree))"
  proof -
    have "distinct (map remotePath ups)"
      unfolding ups by (rule analyzed_uploads_distinct [OF local])
    then have d: "distinct (map remotePath (settled env ups 0))"
      using mset_eq_imp_distinct_iff [OF paths] by simp
    show ?thesis
      unfolding up(1) by (rule finalTree_of_distinct) (simp_all add: up(2,3) d remote)
  qed
  from shape one show ?thesis by blast
qed

section \<open>Evaluating concrete runs\<close>

lemma batches_single: "ups \<noteq> [] \<Longrightarrow> length ups \<le> CHUNK_SIZE \<Longrightarrow> batches ups 0 = [ups]"
  by (subst batches.simps, subst batches.simps) (simp add: CHUNK_SIZE_def)

lemma upload_loop_single:
  "ups \<noteq> [] \<Longrightarrow> length ups \<le> CHUNK_SIZE \<Longrightarrow> upload_loop env ups 0 st = upload_chunk env 0 ups st"
  by (simp add: upload_loop_batches batches_single prod_eq_iff)

lemma toString10_digit: "n < 10 \<Longrightarrow> toString10 n = [digit_char n]"
  unfolding toString10_def by (subst toString_radix.simps) simp

lemmas remote_eval =
  scan_def getRef_def getTreeRecursive_def createBlob_def createTree_def createCommit_def
  updateRef_def createRef_def request_def commit_parents_def remote_with_def

lemmas stage_eval =
  upload_chunk_def settle_order_def upload_one_def commit_stage_def commit_message_def
  generateCommitMessage_def finalTree_of_def analyzed_def no_uploads_def finish_def
  addedPaths_def modifiedPaths_def

lemmas plan_eval =
  plan_def analyze_file_def remoteFileMap_of_def targetPrefix_of_def filesToDelete_of_def
  no_analysis_def to_upload_def

lemma twin_uploads:
  "filesToUpload (fst (plan plain_config [] False twin_files)) =
     map (\<lambda>f. \<lparr>u_file = f, remotePath = ''a.txt'', isNew = True\<rparr>) twin_files"
  by (simp add: plan_eval twin_files_def plain_config_def sanitize_a_txt Let_def)

text \<open>
  Two local files with the same combined path, both uploaded: the tree request carries two
  entries with that path.
\<close>

theorem same_path_twice_in_final_tree:
  "calls (startSync (remote_with [] False) True some_repo plain_config twin_files idle) =
     [GetRef ''main'', GetTreeRecursive ''head'', CreateBlob 0 [], CreateBlob 1 ''YQ=='',
      CreateTree [blob_entry ''a.txt'' ''blob-of-'', blob_entry ''a.txt'' ''blob-of-YQ==''],
      CreateCommit ''chore: sync 2 files'' ''tree1'' [''head''],
      UpdateRef ''main'' ''commit1''] \<and>
   \<not> distinct (map t_path [blob_entry ''a.txt'' ''blob-of-'', blob_entry ''a.txt'' ''blob-of-YQ==''])"
proof -
  have h2: "some_repo \<noteq> None" by (simp add: some_repo_def)
  have guard: "twin_files \<noteq> [] \<or> deleteMissing plain_config" by (simp add: twin_files_def)
  have snap: "snapshot (remote_with [] False) plain_config = (Some ''head'', [], False)"
    by (simp add: snapshot_def remote_eval Let_def)
  have ne: "filesToUpload (fst (plan plain_config [] False twin_files)) \<noteq> []
           \<or> snd (plan plain_config [] False twin_files) \<noteq> []"
    unfolding twin_uploads by (simp add: twin_files_def)
  have loop: "upload_loop env (map (\<lambda>f. \<lparr>u_file = f, remotePath = ''a.txt'', isNew = True\<rparr>) twin_files) 0 st
        = upload_chunk env 0 (map (\<lambda>f. \<lparr>u_file = f, remotePath = ''a.txt'', isNew = True\<rparr>) twin_files) st" for env st
    by (rule upload_loop_single) (simp_all add: twin_files_def CHUNK_SIZE_def)
  show ?thesis
    unfolding startSync_started [OF TrueI h2 guard snap] reconcile_uploading [OF ne] twin_uploads loop Let_def
    by (simp add: twin_files_def readable_def blob_entry_def remote_eval stage_eval plan_eval
          plain_config_def main_branch [unfolded plain_config_def] idle_def toString10_digit digit_char_def Let_def)
qed

lemma sanitize_c_txt: "sanitizeGitPath ''c.txt'' = ''c.txt''"
  by (simp add: sanitizeGitPath_def slash_def backslash_def)

theorem final_tree_has_one_entry_per_path_witness:
  "calls (startSync
            ((remote_with [blob_entry ''a.txt'' ''0'',
                           blob_entry ''b.txt'' ''e69de29bb2d1d6434b8b29ae775ad8c2e48c5391''] False)
               \<lparr>settles_at := (\<lambda>k. 1 - k)\<rparr>)
            True some_repo plain_config [new_file ''a.txt'', new_file ''c.txt''] idle) =
     [GetRef ''main'', GetTreeRecursive ''head'', CreateBlob 1 ''c.txt'', CreateBlob 0 ''a.txt'',
      CreateTree [blob_entry ''c.txt'' ''blob-of-c.txt'', blob_entry ''a.txt'' ''blob-of-a.txt'',
                  blob_entry ''b.txt'' ''e69de29bb2d1d6434b8b29ae775ad8c2e48c5391''],
      CreateCommit ''chore: sync 2 files'' ''tree1'' [''head''],
      UpdateRef ''main'' ''commit1''] \<and>
   distinct (map t_path [blob_entry ''c.txt'' ''blob-of-c.txt'', blob_entry ''a.txt'' ''blob-of-a.txt'',
                         blob_entry ''b.txt'' ''e69de29bb2d1d6434b8b29ae775ad8c2e48c5391''])"
proof -
  let ?tree = "[blob_entry ''a.txt'' ''0'', blob_entry ''b.txt'' ''e69de29bb2d1d6434b8b29ae775ad8c2e48c5391'']"
  let ?env = "(remote_with ?tree False)\<lparr>settles_at := (\<lambda>k. 1 - k)\<rparr>"
  let ?files = "[new_file ''a.txt'', new_file ''c.txt'']"
  let ?ups = "[\<lparr>u_file = new_file ''a.txt'', remotePath = ''a.txt'', isNew = False\<rparr>,
               \<lparr>u_file = new_file ''c.txt'', remotePath = ''c.txt'', isNew = True\<rparr>]"
  let ?ft = "[blob_entry ''c.txt'' ''blob-of-c.txt'', blob_entry ''a.txt'' ''blob-of-a.txt'',
              blob_entry ''b.txt'' ''e69de29bb2d1d6434b8b29ae775ad8c2e48c5391'']"
  have h2: "some_repo \<noteq> None" by (simp add: some_repo_def)
  have guard: "?files \<noteq> [] \<or> deleteMissing plain_config" by simp
  have snap: "snapshot ?env plain_config = (Some ''head'', ?tree, False)"
    by (simp add: snapshot_def remote_eval Let_def)
  have ups: "?ups = filesToUpload (fst (plan plain_config ?tree False ?files))"
    by (simp add: plan_eval new_file_def blob_entry_def plain_config_def sanitize_a_txt sanitize_c_txt
          computeGitBlobSha_of_readable git_blob_id_empty Let_def)
  have ne: "filesToUpload (fst (plan plain_config ?tree False ?files)) \<noteq> []
           \<or> snd (plan plain_config ?tree False ?files) \<noteq> []"
    unfolding ups [symmetric] by simp
  have loop: "upload_loop env ?ups 0 st = upload_chunk env 0 ?ups st" for env st
    by (rule upload_loop_single) (simp_all add: CHUNK_SIZE_def)
  have c: "calls (startSync ?env True some_repo plain_config ?files idle) =
     [GetRef ''main'', GetTreeRecursive ''head'', CreateBlob 1 ''c.txt'', CreateBlob 0 ''a.txt'',
      CreateTree ?ft, CreateCommit ''chore: sync 2 files'' ''tree1'' [''head''], UpdateRef ''main'' ''commit1'']"
    unfolding startSync_started [OF TrueI h2 guard snap] reconcile_uploading [OF ne] ups [symmetric] loop Let_def
    by (simp add: new_file_def readable_def blob_entry_def remote_eval stage_eval plan_eval
          plain_config_def main_branch [unfolded plain_config_def] idle_def toString10_digit digit_char_def
          sanitize_a_txt sanitize_c_txt computeGitBlobSha_of_readable [unfolded readable_def]
          git_blob_id_empty startsWith_def Let_def)
  have local: "distinct (map (\<lambda>f. sanitizeGitPath (targetPrefix_of plain_config @ f_path f)) ?files)"
    by (simp add: new_file_def targetPrefix_of_def plain_config_def sanitize_a_txt sanitize_c_txt)
  have remote: "distinct (map t_path (filter (\<lambda>t. t_type t = ''blob'') ?tree))"
    by (simp add: blob_entry_def)
  have made: "CreateTree ?ft \<in> set (calls (startSync ?env True some_repo plain_config ?files idle))"
    unfolding c by simp
  have fresh: "CreateTree ?ft \<notin> set (calls idle)"
    by (simp add: idle_def)
  from final_tree_has_one_entry_per_path [OF snap ups made fresh] local remote
  have "distinct (map t_path ?ft)" by blast
  with c show ?thesis by simp
qed

section \<open>Truncated listing with delete-missing\<close>

lemma sanitize_src_new: "sanitizeGitPath ''src/new.txt'' = ''src/new.txt''"
  by (simp add: sanitizeGitPath_def slash_def backslash_def)

lemma src_prefix: "targetPrefix_of src_config = ''src/''"
  by (simp add: src_config_def targetPrefix_of_def sanitize_src slash_def)

lemma src_branch: "defaultBranch src_config = ''main''"
  by (simp add: src_config_def defaultBranch_def plain_config_def trim_def is_space_def)

text \<open>
  Claim C4 at a concrete run: delete-missing enabled, target path \<open>src\<close>, a truncated
  listing holding the remote blob \<open>src/old.txt\<close>, and one new local file.  The delete set
  is empty and the warning is logged, yet the tree sent to the remote holds only the new
  entry: \<open>src/old.txt\<close>, which has no local counterpart, is left out of the final tree.
\<close>

theorem truncated_listing_still_drops_in_prefix_blobs:
  "snd (plan src_config [blob_entry ''src/old.txt'' ''e69de29bb2d1d6434b8b29ae775ad8c2e48c5391''] True
          [new_file ''new.txt'']) = [] \<and>
   (''Repo too large. '' @ [dquote] @ ''Delete missing'' @ [dquote] @ '' disabled safely.'', LogWarning)
     \<in> set (logs (startSync truncated_remote True some_repo src_config [new_file ''new.txt''] idle)) \<and>
   calls (startSync truncated_remote True some_repo src_config [new_file ''new.txt''] idle) =
     [GetRef ''main'', GetTreeRecursive ''head'', CreateBlob 0 ''new.txt'',
      CreateTree [blob_entry ''src/new.txt'' ''blob-of-new.txt''],
      CreateCommit ''chore: sync 1 files'' ''tree1'' [''head''],
      UpdateRef ''main'' ''commit1'']"
proof -
  let ?tree = "[blob_entry ''src/old.txt'' ''e69de29bb2d1d6434b8b29ae775ad8c2e48c5391'']"
  let ?files = "[new_file ''new.txt'']"
  have h2: "some_repo \<noteq> None" by (simp add: some_repo_def)
  have guard: "?files \<noteq> [] \<or> deleteMissing src_config" by simp
  have snap: "snapshot truncated_remote src_config = (Some ''head'', ?tree, True)"
    by (simp add: snapshot_def truncated_remote_def remote_eval Let_def)
  have dels: "snd (plan src_config ?tree True ?files) = []"
    by (simp add: plan_def filesToDelete_of_def Let_def)
  have ups: "filesToUpload (fst (plan src_config ?tree True ?files)) =
               [\<lparr>u_file = new_file ''new.txt'', remotePath = ''src/new.txt'', isNew = True\<rparr>]"
    by (simp add: plan_analysis analyze_file_def remoteFileMap_of_def no_analysis_def to_upload_def
          src_prefix new_file_def blob_entry_def sanitize_src_new Let_def)
  have proc: "processedRemotePaths (fst (plan src_config ?tree True ?files)) = {}"
    by (simp add: plan_analysis analyze_file_def remoteFileMap_of_def no_analysis_def to_upload_def
          src_prefix new_file_def blob_entry_def sanitize_src_new Let_def)
  have ne: "filesToUpload (fst (plan src_config ?tree True ?files)) \<noteq> []
           \<or> snd (plan src_config ?tree True ?files) \<noteq> []"
    unfolding ups by simp
  have loop: "upload_loop env [\<lparr>u_file = new_file ''new.txt'', remotePath = ''src/new.txt'', isNew = True\<rparr>] 0 st
        = upload_chunk env 0 [\<lparr>u_file = new_file ''new.txt'', remotePath = ''src/new.txt'', isNew = True\<rparr>] st" for env st
    by (rule upload_loop_single) (simp_all add: CHUNK_SIZE_def)
  have del_on: "deleteMissing src_config" "\<not> autoCommitMessage src_config"
    by (simp_all add: src_config_def plain_config_def)
  have c: "calls (startSync truncated_remote True some_repo src_config ?files idle) =
     [GetRef ''main'', GetTreeRecursive ''head'', CreateBlob 0 ''new.txt'',
      CreateTree [blob_entry ''src/new.txt'' ''blob-of-new.txt''],
      CreateCommit ''chore: sync 1 files'' ''tree1'' [''head''],
      UpdateRef ''main'' ''commit1'']"
    unfolding startSync_started [OF TrueI h2 guard snap] reconcile_uploading [OF ne] ups dels proc loop
      src_prefix src_branch commit_message_def finalTree_of_def Let_def
    by (simp add: new_file_def readable_def blob_entry_def truncated_remote_def remote_eval stage_eval
          del_on idle_def toString10_digit digit_char_def startsWith_def Let_def)
  have l: "(''Repo too large. '' @ [dquote] @ ''Delete missing'' @ [dquote] @ '' disabled safely.'', LogWarning)
     \<in> set (logs (startSync truncated_remote True some_repo src_config ?files idle))"
    unfolding startSync_started [OF TrueI h2 guard snap] reconcile_uploading [OF ne] ups dels proc loop
      src_prefix src_branch commit_message_def finalTree_of_def Let_def
    by (simp add: new_file_def readable_def blob_entry_def truncated_remote_def remote_eval stage_eval
          del_on idle_def toString10_digit digit_char_def startsWith_def Let_def)
  from dels l c show ?thesis by blast
qed

section \<open>Resolving the branch head\<close>

lemma new_a_txt:
  "filesToUpload (fst (plan plain_config [] False [new_file ''a.txt''])) =
     [\<lparr>u_file = new_file ''a.txt'', remotePath = ''a.txt'', isNew = True\<rparr>]"
  by (simp add: plan_eval new_file_def plain_config_def sanitize_a_txt Let_def)

lemma new_a_txt_nothing_else:
  "snd (plan plain_config [] False [new_file ''a.txt'']) = []"
  "processedRemotePaths (fst (plan plain_config [] False [new_file ''a.txt''])) = {}"
  by (simp_all add: plan_eval new_file_def plain_config_def sanitize_a_txt Let_def)

text \<open>
  The ref lookup answered with 401 gives the very error it gives when answered with 404, and
  a run whose ref lookup is answered with 401 goes on in first-push mode: no tree is
  listed, the commit has no parent, and the ref is created instead of updated.
\<close>

theorem auth_failure_taken_for_absent_branch:
  "getRef (ref_lookup_answers (NotOk 401 (Some ''Bad credentials''))) ''main''
     = Inl (Error (''Branch '' @ [quote] @ ''main'' @ [quote] @ '' not found.'')) \<and>
   getRef (ref_lookup_answers (NotOk 404 (Some ''Not Found''))) ''main''
     = Inl (Error (''Branch '' @ [quote] @ ''main'' @ [quote] @ '' not found.'')) \<and>
   calls (startSync (ref_lookup_answers (NotOk 401 (Some ''Bad credentials''))) True some_repo plain_config
            [new_file ''a.txt''] idle) =
     [GetRef ''main'', CreateBlob 0 ''a.txt'',
      CreateTree [blob_entry ''a.txt'' ''blob-of-a.txt''],
      CreateCommit ''chore: sync 1 files'' ''tree1'' [],
      CreateRef ''main'' ''commit1'']"
proof -
  let ?env = "ref_lookup_answers (NotOk 401 (Some ''Bad credentials''))"
  let ?files = "[new_file ''a.txt'']"
  have g1: "getRef ?env ''main'' = Inl (Error (''Branch '' @ [quote] @ ''main'' @ [quote] @ '' not found.''))"
    by (simp add: getRef_def request_def ref_lookup_answers_def remote_with_def)
  have g2: "getRef (ref_lookup_answers (NotOk 404 (Some ''Not Found''))) ''main''
     = Inl (Error (''Branch '' @ [quote] @ ''main'' @ [quote] @ '' not found.''))"
    by (simp add: getRef_def request_def ref_lookup_answers_def remote_with_def)
  have h2: "some_repo \<noteq> None" by (simp add: some_repo_def)
  have guard: "?files \<noteq> [] \<or> deleteMissing plain_config" by simp
  have snap: "snapshot ?env plain_config = (None, [], False)"
    by (simp add: snapshot_def scan_def g1 main_branch Let_def)
  have ne: "filesToUpload (fst (plan plain_config [] False ?files)) \<noteq> []
           \<or> snd (plan plain_config [] False ?files) \<noteq> []"
    unfolding new_a_txt by simp
  have loop: "upload_loop env [\<lparr>u_file = new_file ''a.txt'', remotePath = ''a.txt'', isNew = True\<rparr>] 0 st
        = upload_chunk env 0 [\<lparr>u_file = new_file ''a.txt'', remotePath = ''a.txt'', isNew = True\<rparr>] st" for env st
    by (rule upload_loop_single) (simp_all add: CHUNK_SIZE_def)
  have cfg: "\<not> deleteMissing plain_config" "\<not> autoCommitMessage plain_config" "targetPrefix_of plain_config = []"
    by (simp_all add: plain_config_def targetPrefix_of_def)
  have c: "calls (startSync ?env True some_repo plain_config ?files idle) =
     [GetRef ''main'', CreateBlob 0 ''a.txt'',
      CreateTree [blob_entry ''a.txt'' ''blob-of-a.txt''],
      CreateCommit ''chore: sync 1 files'' ''tree1'' [],
      CreateRef ''main'' ''commit1'']"
    unfolding startSync_started [OF TrueI h2 guard snap] reconcile_uploading [OF ne] new_a_txt
      new_a_txt_nothing_else loop main_branch commit_message_def finalTree_of_def cfg Let_def
    by (simp add: scan_def g1 new_file_def readable_def blob_entry_def ref_lookup_answers_def remote_eval
          stage_eval idle_def toString10_digit digit_char_def cfg Let_def)
  from g1 g2 c show ?thesis by blast
qed

text \<open>
  Claim C6, as amended.  Resolving the branch head succeeds when the request succeeds, and
  fails whenever the request fails, for whatever reason (HTTP status with or without a
  message, or no response at all), always with the one error saying that the branch was not
  found: the kinds of failure are not told apart.  On every such failure the scan resolves
  to first-push mode: no head commit and an empty, untruncated tree.
\<close>

theorem every_ref_failure_is_not_found:
  "getRef (env\<lparr>ref_response := (\<lambda>b. Ok sha)\<rparr>) b = Inr sha \<and>
   getRef (env\<lparr>ref_response := (\<lambda>b. NotOk status msg)\<rparr>) b
     = Inl (Error (''Branch '' @ [quote] @ b @ [quote] @ '' not found.'')) \<and>
   getRef (env\<lparr>ref_response := (\<lambda>b. Rejected m)\<rparr>) b
     = Inl (Error (''Branch '' @ [quote] @ b @ [quote] @ '' not found.'')) \<and>
   fst (scan (env\<lparr>ref_response := (\<lambda>b. NotOk status msg)\<rparr>) b app) = (None, [], False) \<and>
   fst (scan (env\<lparr>ref_response := (\<lambda>b. Rejected m)\<rparr>) b app) = (None, [], False)"
  by (simp add: getRef_def request_def scan_def Let_def)

section \<open>The commit message\<close>







section \<open>A run without local files\<close>

lemma plan_empty_selection:
  "fst (plan config tree truncated []) = no_analysis"
  "snd (plan config tree False []) =
     (if deleteMissing config
      then map t_path (filter (\<lambda>t. t_type t = ''blob''
                 \<and> (targetPrefix_of config = [] \<or> startsWith (t_path t) (targetPrefix_of config))) tree)
      else [])"
  by (simp_all add: plan_def Let_def filesToDelete_of_def delete_pass_eq no_analysis_def)

lemma finalTree_of_empty_selection:
  assumes "deleteMissing config"
    and "dels = map t_path (filter (\<lambda>t. t_type t = ''blob'' \<and> (pre = [] \<or> startsWith (t_path t) pre)) tree)"
  shows "finalTree_of config pre {} dels no_uploads tree
           = filter (\<lambda>t. t_type t = ''blob'' \<and> t_path t \<notin> set dels) tree"
  unfolding finalTree_of_def
  by (rule trans [OF _ append_Nil], simp add: no_uploads_def, rule filter_cong [OF refl])
     (use assms in auto)

lemma upload_loop_nothing: "upload_loop env [] 0 st = (st, None)"
  by (subst upload_loop.simps) simp

lemma scan_resolved:
  assumes "ref_response env b = Ok head" and "tree_response env head = Ok (tree, truncated)"
  shows "fst (scan env b app) = (Some head, tree, truncated)"
    and "calls (snd (scan env b app)) = calls app @ [GetRef b, GetTreeRecursive head]"
  using assms by (simp_all add: scan_def getRef_def getTreeRecursive_def request_def Let_def)

lemma commit_stage_accepted:
  assumes "newTree_response env ft = Ok newTreeSha"
    and "head \<noteq> []"
    and "commit_response env msg newTreeSha [head] = Ok newCommitSha"
    and "updateRef_response env b newCommitSha = Ok ()"
  shows "snd (commit_stage env b (Some head) msg ft app) = None"
    and "syncState (fst (commit_stage env b (Some head) msg ft app)) = SUCCESS"
    and "calls (fst (commit_stage env b (Some head) msg ft app))
           = calls app @ [CreateTree ft, CreateCommit msg newTreeSha [head], UpdateRef b newCommitSha]"
  using assms
  by (simp_all add: commit_stage_def createTree_def createCommit_def updateRef_def request_def
        commit_parents_def Let_def)

text \<open>
  Claim C10.  With no local file selected the run stops at the entry guard with a warning when
  delete-missing is off.  When it is on and the listing is not truncated, the delete set is
  every remote blob path under the target prefix (every remote blob path when there is no
  prefix); when there is such a path and the remote accepts the requests, the run sends a
  tree without any of these paths, a commit on the resolved head and the ref update, and ends
  in \<open>SUCCESS\<close>.
\<close>

theorem empty_selection_deletes_scope:
  assumes "isConnected" and "repoDetails \<noteq> None" and on: "deleteMissing config"
    and ref: "ref_response env (defaultBranch config) = Ok head" and head: "head \<noteq> []"
    and listing: "tree_response env head = Ok (tree, False)"
    and dels: "dels = map t_path (filter (\<lambda>t. t_type t = ''blob''
                 \<and> (targetPrefix_of config = [] \<or> startsWith (t_path t) (targetPrefix_of config))) tree)"
    and some: "dels \<noteq> []"
    and ft: "ft = filter (\<lambda>t. t_type t = ''blob'' \<and> t_path t \<notin> set dels) tree"
    and msg: "msg = commit_message env config no_analysis dels"
    and accepted: "newTree_response env ft = Ok newTreeSha"
      "commit_response env msg newTreeSha [head] = Ok newCommitSha"
      "updateRef_response env (defaultBranch config) newCommitSha = Ok ()"
  shows "startSync env isConnected repoDetails (config\<lparr>deleteMissing := False\<rparr>) [] app
           = addLog ''No files selected.'' LogWarning app \<and>
         snd (plan config tree False []) = dels \<and>
         set (map t_path ft) \<inter> set dels = {} \<and>
         syncState (startSync env isConnected repoDetails config [] app) = SUCCESS \<and>
         calls (startSync env isConnected repoDetails config [] app)
           = calls app @ [GetRef (defaultBranch config), GetTreeRecursive head, CreateTree ft,
                          CreateCommit msg newTreeSha [head],
                          UpdateRef (defaultBranch config) newCommitSha]"
proof -
  let ?b = "defaultBranch config"
  have guard_off: "startSync env isConnected repoDetails (config\<lparr>deleteMissing := False\<rparr>) [] app
           = addLog ''No files selected.'' LogWarning app"
    using assms(1,2) by (simp add: startSync_def)
  have plan_dels: "snd (plan config tree False []) = dels"
    using on dels by (simp add: plan_empty_selection)
  have omitted: "set (map t_path ft) \<inter> set dels = {}"
    unfolding ft by auto
  have guard: "[] \<noteq> ([] :: FileToSync list) \<or> deleteMissing config"
    using on by simp
  have snap: "snapshot env config = (Some head, tree, False)"
    unfolding snapshot_def by (rule scan_resolved(1) [OF ref listing])
  let ?app1 = "snd (scan env ?b (addLog (''Targeting branch: '' @ ?b) LogInfo (setSyncState SCANNING app)))"
  have ne: "filesToUpload (fst (plan config tree False [])) \<noteq> [] \<or> snd (plan config tree False []) \<noteq> []"
    using some plan_dels by simp
  have ft0: "finalTree_of config (targetPrefix_of config) {} dels no_uploads tree = ft"
    unfolding ft by (rule finalTree_of_empty_selection [OF on dels])
  let ?app2 = "setSyncState COMMITTING (setSyncState UPLOADING (analyzed config tree False [] ?app1))"
  have rec: "snd (reconcile env config [] ?b (Some head) tree False ?app1)
               = map_option (\<lambda>e. (e, [])) (snd (commit_stage env ?b (Some head) msg ft ?app2))"
      "snd (fst (reconcile env config [] ?b (Some head) tree False ?app1))
               = fst (commit_stage env ?b (Some head) msg ft ?app2)"
    unfolding reconcile_uploading [OF ne] Let_def plan_empty_selection(1) plan_dels
    by (simp_all add: upload_loop_nothing no_analysis_def ft0 msg [unfolded no_analysis_def])
  note cs = commit_stage_accepted [OF accepted(1) head accepted(2,3)]
  have "syncState (startSync env isConnected repoDetails config [] app) = SUCCESS"
    unfolding startSync_started [OF assms(1,2) guard snap] Let_def rec
    by (simp add: cs)
  moreover have "calls (startSync env isConnected repoDetails config [] app)
           = calls app @ [GetRef ?b, GetTreeRecursive head, CreateTree ft,
                          CreateCommit msg newTreeSha [head], UpdateRef ?b newCommitSha]"
    unfolding startSync_started [OF assms(1,2) guard snap] Let_def rec
    by (simp add: cs scan_resolved(2) [OF ref listing])
  ultimately show ?thesis
    using guard_off plan_dels omitted by blast
qed

theorem empty_selection_deletes_scope_witness:
  "startSync (remote_with [blob_entry ''src/old.txt'' ''e69de29bb2d1d6434b8b29ae775ad8c2e48c5391'',
                           blob_entry ''keep.txt'' ''2e65efe2a145dda7ee51d1741299f848e5bf752e''] False)
      True some_repo (src_config\<lparr>deleteMissing := False\<rparr>) [] idle
     = addLog ''No files selected.'' LogWarning idle \<and>
   snd (plan src_config [blob_entry ''src/old.txt'' ''e69de29bb2d1d6434b8b29ae775ad8c2e48c5391'',
                         blob_entry ''keep.txt'' ''2e65efe2a145dda7ee51d1741299f848e5bf752e''] False [])
     = [''src/old.txt''] \<and>
   syncState (startSync (remote_with [blob_entry ''src/old.txt'' ''e69de29bb2d1d6434b8b29ae775ad8c2e48c5391'',
                           blob_entry ''keep.txt'' ''2e65efe2a145dda7ee51d1741299f848e5bf752e''] False)
      True some_repo src_config [] idle) = SUCCESS \<and>
   calls (startSync (remote_with [blob_entry ''src/old.txt'' ''e69de29bb2d1d6434b8b29ae775ad8c2e48c5391'',
                           blob_entry ''keep.txt'' ''2e65efe2a145dda7ee51d1741299f848e5bf752e''] False)
      True some_repo src_config [] idle)
     = [GetRef ''main'', GetTreeRecursive ''head'',
        CreateTree [blob_entry ''keep.txt'' ''2e65efe2a145dda7ee51d1741299f848e5bf752e''],
        CreateCommit ''chore: sync 0 files'' ''tree1'' [''head''],
        UpdateRef ''main'' ''commit1'']"
proof -
  let ?tree = "[blob_entry ''src/old.txt'' ''e69de29bb2d1d6434b8b29ae775ad8c2e48c5391'',
                blob_entry ''keep.txt'' ''2e65efe2a145dda7ee51d1741299f848e5bf752e'']"
  let ?env = "remote_with ?tree False"
  let ?ft = "[blob_entry ''keep.txt'' ''2e65efe2a145dda7ee51d1741299f848e5bf752e'']"
  have h2: "some_repo \<noteq> None" by (simp add: some_repo_def)
  have on: "deleteMissing src_config" by (simp add: src_config_def)
  have ref: "ref_response ?env (defaultBranch src_config) = Ok ''head''"
    by (simp add: remote_with_def)
  have head: "''head'' \<noteq> []" by simp
  have listing: "tree_response ?env ''head'' = Ok (?tree, False)"
    by (simp add: remote_with_def)
  have dels: "[''src/old.txt''] = map t_path (filter (\<lambda>t. t_type t = ''blob''
                 \<and> (targetPrefix_of src_config = [] \<or> startsWith (t_path t) (targetPrefix_of src_config))) ?tree)"
    by (simp add: src_prefix blob_entry_def startsWith_def)
  have some: "[''src/old.txt''] \<noteq> []" by simp
  have ft: "?ft = filter (\<lambda>t. t_type t = ''blob'' \<and> t_path t \<notin> set [''src/old.txt'']) ?tree"
    by (simp add: blob_entry_def)
  have msg: "''chore: sync 0 files'' = commit_message ?env src_config no_analysis [''src/old.txt'']"
    by (simp add: commit_message_def src_config_def plain_config_def no_analysis_def toString10_digit digit_char_def)
  have accepted: "newTree_response ?env ?ft = Ok ''tree1''"
      "commit_response ?env ''chore: sync 0 files'' ''tree1'' [''head''] = Ok ''commit1''"
      "updateRef_response ?env (defaultBranch src_config) ''commit1'' = Ok ()"
    by (simp_all add: remote_with_def)
  from empty_selection_deletes_scope [OF TrueI h2 on ref head listing dels some ft msg accepted, of idle]
  show ?thesis
    by (simp add: src_branch idle_def)
qed

end
